theory Spec2Isabelle
  imports Main "HOL-Library.Sublist"
begin

section \<open>Strings\<close>

text \<open>
  A JavaScript string is modelled as the byte string of its UTF-8 encoding: an ASCII
  character is one \<^typ>\<open>char\<close>, any other character is the two to four bytes of its
  encoding. Equality, concatenation, \<^verbatim>\<open>join\<close> and \<^verbatim>\<open>includes\<close> of
  well-formed strings agree with their byte-wise counterparts.
\<close>

text \<open>
  \<^verbatim>\<open>String.prototype.toLowerCase\<close>. On a string of ASCII characters the letters A to Z
  are mapped to a to z and every other character is kept. The lowercase of a string with
  a character outside ASCII (a byte with the high bit set) is given by the Unicode case
  tables of the runtime, which are not part of the repository: there the Kelvin sign
  U+212A becomes \<open>k\<close>, for instance, so that such a string can meet a rule that its
  bytes do not show. These tables are the parameter \<open>unicode\<close>, a function on such
  strings; the statements hold for every such function.
\<close>

definition lowerChar :: "char \<Rightarrow> char" where
  "lowerChar c =
     (case map_of (zip ''ABCDEFGHIJKLMNOPQRSTUVWXYZ'' ''abcdefghijklmnopqrstuvwxyz'') c of
        Some l \<Rightarrow> l
      | None \<Rightarrow> c)"

definition isAscii :: "string \<Rightarrow> bool" where
  "isAscii s = list_all (\<lambda>c. \<not> digit7 c) s"

definition toLowerCase :: "(string \<Rightarrow> string) \<Rightarrow> string \<Rightarrow> string" where
  "toLowerCase unicode s = (if isAscii s then map lowerChar s else unicode s)"

text \<open>
  \<^verbatim>\<open>String.prototype.includes\<close>: the argument occurs as a contiguous run of the string.
\<close>

fun includesStr :: "string \<Rightarrow> string \<Rightarrow> bool" where
  "includesStr [] t = (t = [])"
| "includesStr (c # s) t = (prefix t (c # s) \<or> includesStr s t)"

text \<open>
  The white space and line terminators that \<^verbatim>\<open>String.prototype.trim\<close> strips, each as its
  UTF-8 bytes: U+0009 to U+000D, U+0020, U+00A0, U+1680, U+2000 to U+200A, U+2028, U+2029,
  U+202F, U+205F, U+3000 and U+FEFF.
\<close>

definition whiteSpace :: "string list" where
  "whiteSpace =
     [[CHR 0x09], [CHR 0x0A], [CHR 0x0B], [CHR 0x0C], [CHR 0x0D], [CHR 0x20],
      [CHR 0xC2, CHR 0xA0],
      [CHR 0xE1, CHR 0x9A, CHR 0x80],
      [CHR 0xE2, CHR 0x80, CHR 0x80], [CHR 0xE2, CHR 0x80, CHR 0x81],
      [CHR 0xE2, CHR 0x80, CHR 0x82], [CHR 0xE2, CHR 0x80, CHR 0x83],
      [CHR 0xE2, CHR 0x80, CHR 0x84], [CHR 0xE2, CHR 0x80, CHR 0x85],
      [CHR 0xE2, CHR 0x80, CHR 0x86], [CHR 0xE2, CHR 0x80, CHR 0x87],
      [CHR 0xE2, CHR 0x80, CHR 0x88], [CHR 0xE2, CHR 0x80, CHR 0x89],
      [CHR 0xE2, CHR 0x80, CHR 0x8A],
      [CHR 0xE2, CHR 0x80, CHR 0xA8], [CHR 0xE2, CHR 0x80, CHR 0xA9],
      [CHR 0xE2, CHR 0x80, CHR 0xAF],
      [CHR 0xE2, CHR 0x81, CHR 0x9F],
      [CHR 0xE3, CHR 0x80, CHR 0x80],
      [CHR 0xEF, CHR 0xBB, CHR 0xBF]]"

text \<open>
  \<open>strip ws s\<close> removes from the front of \<open>s\<close> every leading occurrence of a member of
  \<open>ws\<close>. The empty member is skipped: it would never shorten the string.
\<close>

function strip :: "string list \<Rightarrow> string \<Rightarrow> string" where
  "strip ws s =
     (case find (\<lambda>w. w \<noteq> [] \<and> prefix w s) ws of
        None \<Rightarrow> s
      | Some w \<Rightarrow> strip ws (drop (length w) s))"
  by pat_completeness auto
termination
proof (relation "measure (\<lambda>(ws, s). length s)")
  show "wf (measure (\<lambda>(ws, s). length s))"
    by simp
next
  fix ws :: "string list" and s w :: string
  assume "find (\<lambda>w. w \<noteq> [] \<and> prefix w s) ws = Some w"
  then have "w \<noteq> []" and "prefix w s"
    by (auto simp: find_Some_iff)
  then have "s \<noteq> []" and "0 < length w"
    by auto
  then show "((ws, drop (length w) s), (ws, s)) \<in> measure (\<lambda>(ws, s). length s)"
    by simp
qed

declare strip.simps [simp del]

definition trimStart :: "string \<Rightarrow> string" where
  "trimStart s = strip whiteSpace s"

definition trimEnd :: "string \<Rightarrow> string" where
  "trimEnd s = rev (strip (map rev whiteSpace) (rev s))"

definition trim :: "string \<Rightarrow> string" where
  "trim s = trimEnd (trimStart s)"

text \<open>\<^verbatim>\<open>Array.prototype.join\<close> with a separator.\<close>

fun join :: "string \<Rightarrow> string list \<Rightarrow> string" where
  "join sep [] = []"
| "join sep [x] = x"
| "join sep (x # y # xs) = x @ sep @ join sep (y # xs)"

text \<open>
  \<^verbatim>\<open>Array.prototype.slice\<close> with one argument: a negative start counts from the end, and
  the start is clamped to the array.
\<close>

definition slice :: "int \<Rightarrow> 'a list \<Rightarrow> 'a list" where
  "slice k xs =
     (let n = int (length xs);
          start = (if k < 0 then max (n + k) 0 else min k n)
      in drop (nat start) xs)"

section \<open>Data model\<close>

text \<open>
  The role of a turn. The code passes it as a string, and only ever \<^verbatim>\<open>'Human'\<close> (in the
  message handler) or \<^verbatim>\<open>'Bot'\<close> (in \<^verbatim>\<open>getBotResponse\<close>).
\<close>

datatype role = Human | Bot

definition roleName :: "role \<Rightarrow> string" where
  "roleName r = (case r of Human \<Rightarrow> ''Human'' | Bot \<Rightarrow> ''Bot'')"

text \<open>
  A conversation turn, the object pushed by \<^verbatim>\<open>updateConversationHistory\<close>. The timestamp
  is the value of \<^verbatim>\<open>new Date()\<close>, an instant counted as a natural number.
\<close>

record turn =
  message :: string
  role :: role
  timestamp :: nat

text \<open>
  The documents of the two collections. Both carry the \<^verbatim>\<open>sender\<close> key; a user
  document is the object built by \<^verbatim>\<open>getUserProfile\<close> (its preferences an object, here
  the list of its entries), a conversation document the one that the upsert of
  \<^verbatim>\<open>updateConversationHistory\<close> creates.
\<close>

record doc =
  sender :: string

record user = doc +
  preferences :: "(string \<times> string) list"
  favoriteResponses :: "string list"
  conversationHistory :: "turn list"

record conversation = doc +
  history :: "turn list"

text \<open>The event delivered by the transport: \<^verbatim>\<open>msg.from\<close> and \<^verbatim>\<open>msg.body\<close>.\<close>

record msg =
  msg_from :: string
  msg_body :: string

text \<open>A rejected storage call is the only error a turn can end with.\<close>

datatype error = StorageError

text \<open>
  What the completion service does with one request: it resolves with a response whose
  \<^verbatim>\<open>choices[0].message.content\<close> is the given string, it resolves with a response that
  lacks such a string (reading it throws; the text is that of the thrown error), or the
  request rejects (time-out, authentication, rate limit; the text is that of the error).
\<close>

datatype completion = Content string | NoContent string | Rejected string

text \<open>
  Every call the program makes to a collaborator is recorded, in the order of the calls:
  the logger, the two collections, the completion service and the transport.
\<close>

datatype event =
    LogInfo string
  | LogError string
  | UsersFindOne string
  | UsersInsertOne string
  | ConversationsUpdateOne string role string
  | ConversationsFindOne string
  | CompletionsCreate string
  | MsgReply string string

text \<open>
  The world a turn runs in: the two collections (a collection is a sequence of documents,
  \<^verbatim>\<open>findOne\<close> and \<^verbatim>\<open>updateOne\<close> take the first match), the clock (\<open>clock w k\<close> is
  the instant that \<^verbatim>\<open>new Date()\<close> yields once the program has made \<open>k\<close> calls), the
  Unicode case tables of the runtime (the lowercase of a string with a character outside
  ASCII), the outcomes of the storage calls still to come (\<open>True\<close>: the call
  rejects; past the end of the list every call succeeds) and the calls made so far.
\<close>

record world =
  usersCollection :: "user list"
  conversationsCollection :: "conversation list"
  clock :: "nat \<Rightarrow> nat"
  unicodeLower :: "string \<Rightarrow> string"
  faults :: "bool list"
  events :: "event list"

section \<open>Effects\<close>

text \<open>
  An asynchronous operation yields its value or the error it rejected with, and the world
  it left behind. \<open>await\<close> continues with the value, or passes the rejection on. One
  handler runs at a time: the interleaving of handlers that run concurrently is not
  modelled.
\<close>

type_synonym 'a promise = "(error + 'a) \<times> world"

definition await :: "'a promise \<Rightarrow> ('a \<Rightarrow> world \<Rightarrow> 'b promise) \<Rightarrow> 'b promise" where
  "await p k = (case p of (Inl e, w) \<Rightarrow> (Inl e, w) | (Inr x, w) \<Rightarrow> k x w)"

definition emit :: "event \<Rightarrow> world \<Rightarrow> world" where
  "emit ev w = w\<lparr>events := events w @ [ev]\<rparr>"

text \<open>\<^verbatim>\<open>new Date()\<close>: the instant on the clock after the calls made so far.\<close>

definition newDate :: "world \<Rightarrow> nat" where
  "newDate w = clock w (length (events w))"

text \<open>
  A call to the storage collaborator: recorded, then it succeeds or rejects. The four
  calls of the program follow: \<^verbatim>\<open>usersCollection.findOne({ sender })\<close>,
  \<^verbatim>\<open>usersCollection.insertOne(user)\<close>, \<^verbatim>\<open>conversationsCollection.updateOne\<close> with
  \<^verbatim>\<open>$push\<close> and \<^verbatim>\<open>upsert\<close>, and \<^verbatim>\<open>conversationsCollection.findOne({ sender })\<close>.
\<close>

definition storageCall :: "event \<Rightarrow> world \<Rightarrow> unit promise" where
  "storageCall ev w =
     (case faults w of
        [] \<Rightarrow> (Inr (), emit ev w)
      | f # fs \<Rightarrow> (if f then Inl StorageError else Inr (), emit ev (w\<lparr>faults := fs\<rparr>)))"

definition usersFindOne :: "string \<Rightarrow> world \<Rightarrow> user option promise" where
  "usersFindOne s w =
     await (storageCall (UsersFindOne s) w)
       (\<lambda>_ w1. (Inr (find (\<lambda>u. sender u = s) (usersCollection w1)), w1))"

definition usersInsertOne :: "user \<Rightarrow> world \<Rightarrow> unit promise" where
  "usersInsertOne u w =
     await (storageCall (UsersInsertOne (sender u)) w)
       (\<lambda>_ w1. (Inr (), w1\<lparr>usersCollection := usersCollection w1 @ [u]\<rparr>))"

text \<open>
  \<^verbatim>\<open>updateOne({ sender }, { $push: { history: t } }, { upsert: true })\<close> on the documents:
  the first document of the sender gets the turn at the end of its history; without one,
  a document holding just this turn is inserted.
\<close>

fun pushHistory :: "string \<Rightarrow> turn \<Rightarrow> conversation list \<Rightarrow> conversation list" where
  "pushHistory s t [] = [\<lparr>sender = s, history = [t]\<rparr>]"
| "pushHistory s t (c # cs) =
     (if sender c = s then c\<lparr>history := history c @ [t]\<rparr> # cs
      else c # pushHistory s t cs)"

definition conversationsUpdateOne :: "string \<Rightarrow> turn \<Rightarrow> world \<Rightarrow> unit promise" where
  "conversationsUpdateOne s t w =
     await (storageCall (ConversationsUpdateOne s (role t) (message t)) w)
       (\<lambda>_ w1. (Inr (),
          w1\<lparr>conversationsCollection := pushHistory s t (conversationsCollection w1)\<rparr>))"

definition conversationsFindOne :: "string \<Rightarrow> world \<Rightarrow> conversation option promise" where
  "conversationsFindOne s w =
     await (storageCall (ConversationsFindOne s) w)
       (\<lambda>_ w1. (Inr (find (\<lambda>c. sender c = s) (conversationsCollection w1)), w1))"

section \<open>The stores\<close>

text \<open>
  The three functions of bot.js that read and write the collections (lines 98 to 121):
  \<^verbatim>\<open>getUserProfile\<close>, \<^verbatim>\<open>updateConversationHistory\<close> and \<^verbatim>\<open>getConversationHistory\<close>,
  whose entries are the template \<^verbatim>\<open>${entry.role}: ${entry.message}\<close>.
\<close>

definition getUserProfile :: "string \<Rightarrow> world \<Rightarrow> user promise" where
  "getUserProfile s w =
     await (usersFindOne s w) (\<lambda>found w1.
       case found of
         Some user \<Rightarrow> (Inr user, w1)
       | None \<Rightarrow>
           (let user = \<lparr>sender = s, preferences = [], favoriteResponses = [],
                  conversationHistory = []\<rparr>
            in await (usersInsertOne user w1) (\<lambda>_ w2. (Inr user, w2))))"

definition updateConversationHistory :: "string \<Rightarrow> string \<Rightarrow> role \<Rightarrow> world \<Rightarrow> unit promise"
  where
  "updateConversationHistory s m r w =
     conversationsUpdateOne s \<lparr>message = m, role = r, timestamp = newDate w\<rparr> w"

definition entry :: "turn \<Rightarrow> string" where
  "entry t = roleName (role t) @ '': '' @ message t"

definition getConversationHistory :: "string \<Rightarrow> world \<Rightarrow> string list promise" where
  "getConversationHistory s w =
     await (conversationsFindOne s w) (\<lambda>found w1.
       case found of
         Some c \<Rightarrow> (Inr (map entry (slice (- 20) (history c))), w1)
       | None \<Rightarrow> (Inr [], w1))"

section \<open>The resolver\<close>

text \<open>
  \<^verbatim>\<open>getBotResponse\<close> (lines 123 to 170) with its three fixed replies, the fallback of the
  completion call and the prompt template. The emoji that end three of the strings are
  U+1F60A, U+1F609 and U+1F60E.
\<close>

definition greetingReply :: string where
  "greetingReply =
     ''Hello! How can I assist you today? '' @ [CHR 0xF0, CHR 0x9F, CHR 0x98, CHR 0x8A]"

definition whoAreYouReply :: string where
  "whoAreYouReply =
     ''I'm a bot created by Patrick Attankurugu. But enough about me, what's on your mind today?''"

definition patrickReply :: string where
  "patrickReply =
     ''Patrick Attankurugu is a great guy, but let's not make this all about him. What's up with you? ''
       @ [CHR 0xF0, CHR 0x9F, CHR 0x98, CHR 0x89]"

definition fallbackReply :: string where
  "fallbackReply =
     ''Oops, something went wrong there! But hey, I'm still awesome, right? ''
       @ [CHR 0xF0, CHR 0x9F, CHR 0x98, CHR 0x8E]"

definition buildPrompt :: "string list \<Rightarrow> string" where
  "buildPrompt hist =
     ''\<newline>    Here's the conversation history:\<newline>    '' @ join ''\<newline>'' hist
       @ ''\<newline>\<newline>    Respond to the last message. Be fun, sarcastic, and engaging in your response.''
       @ ''\<newline>    Keep it concise (1-2 sentences max).''
       @ ''\<newline>    Avoid big words, use simple, everyday English.''"

text \<open>
  The completion call with its two handlers, \<^verbatim>\<open>then\<close> and \<^verbatim>\<open>catch\<close>: the reply is the
  trimmed content; a request that rejects, or a response without content, is logged and
  replaced by the fallback. The parameter \<open>openai\<close> is the service: what it does with a
  prompt.
\<close>

definition createCompletion :: "(string \<Rightarrow> completion) \<Rightarrow> string \<Rightarrow> world \<Rightarrow> string \<times> world"
  where
  "createCompletion openai prompt w =
     (let w1 = emit (CompletionsCreate prompt) w
      in case openai prompt of
           Content c \<Rightarrow> (trim c, w1)
         | NoContent err \<Rightarrow> (fallbackReply, emit (LogError (''OpenAI API error: '' @ err)) w1)
         | Rejected err \<Rightarrow> (fallbackReply, emit (LogError (''OpenAI API error: '' @ err)) w1))"

text \<open>The two lines that end every branch: record the Bot turn, return the response.\<close>

definition respond :: "string \<Rightarrow> string \<Rightarrow> world \<Rightarrow> string promise" where
  "respond s response w =
     await (updateConversationHistory s response Bot w) (\<lambda>_ w1. (Inr response, w1))"

definition getBotResponse ::
  "(string \<Rightarrow> completion) \<Rightarrow> string \<Rightarrow> string \<Rightarrow> world \<Rightarrow> string promise" where
  "getBotResponse openai s incomingMsg w =
     await (getUserProfile s w) (\<lambda>user w1.
     await (getConversationHistory s w1) (\<lambda>fetched w2.
       let hist = fetched @ [''Human: '' @ incomingMsg] in
       if toLowerCase (unicodeLower w2) incomingMsg = ''hi'' then respond s greetingReply w2
       else if includesStr (toLowerCase (unicodeLower w2) incomingMsg) ''who are you''
         then respond s whoAreYouReply w2
       else if includesStr (toLowerCase (unicodeLower w2) incomingMsg)
           ''tell me more about patrick''
         then respond s patrickReply w2
       else
         (case createCompletion openai (buildPrompt hist) w2 of
            (response, w3) \<Rightarrow> respond s response w3)))"

text \<open>
  The handler of the transport's \<^verbatim>\<open>message\<close> event (lines 78 to 90). The handler does
  not await \<^verbatim>\<open>msg.reply\<close>; a failure of the transport is not modelled.
\<close>

definition onMessage :: "(string \<Rightarrow> completion) \<Rightarrow> msg \<Rightarrow> world \<Rightarrow> string promise" where
  "onMessage openai m w =
     (let s = msg_from m;
          incomingMsg = trim (msg_body m);
          w1 = emit (LogInfo (''Received message from '' @ s @ '': '' @ incomingMsg)) w
      in await (updateConversationHistory s incomingMsg Human w1) (\<lambda>_ w2.
         await (getBotResponse openai s incomingMsg w2) (\<lambda>botResponse w3.
           (Inr botResponse,
            emit (LogInfo (''Sent response to '' @ s @ '': '' @ botResponse))
              (emit (MsgReply s botResponse) w3)))))"

text \<open>
  The transport delivers the events one at a time, each with the behaviour of the
  completion service during its turn; the next handler runs when the previous one has
  returned, and a rejected handler ends the run.
\<close>

fun deliver :: "((string \<Rightarrow> completion) \<times> msg) list \<Rightarrow> world \<Rightarrow> string list promise" where
  "deliver [] w = (Inr [], w)"
| "deliver (d # ds) w =
     await (onMessage (fst d) (snd d) w) (\<lambda>r w1.
     await (deliver ds w1) (\<lambda>rs w2. (Inr (r # rs), w2)))"

section \<open>Notions used in the statements\<close>

text \<open>No storage call still to come rejects; the next storage call rejects.\<close>

definition noFaults :: "world \<Rightarrow> bool" where
  "noFaults w = (True \<notin> set (faults w))"

definition nextRejects :: "world \<Rightarrow> bool" where
  "nextRejects w = (case faults w of [] \<Rightarrow> False | f # _ \<Rightarrow> f)"

text \<open>The world after a storage call that succeeded, before the call's own effect.\<close>

definition passed :: "event \<Rightarrow> world \<Rightarrow> world" where
  "passed ev w = emit ev (w\<lparr>faults := tl (faults w)\<rparr>)"

text \<open>The history of the record that \<^verbatim>\<open>findOne\<close> yields for a sender; empty without one.\<close>

definition historyOf :: "string \<Rightarrow> world \<Rightarrow> turn list" where
  "historyOf s w =
     (case find (\<lambda>c. sender c = s) (conversationsCollection w) of
        None \<Rightarrow> []
      | Some c \<Rightarrow> history c)"

text \<open>
  None of the three conditions of \<^verbatim>\<open>getBotResponse\<close> holds for the message, whose
  lowercase is taken with the given case tables.
\<close>

definition noRule :: "(string \<Rightarrow> string) \<Rightarrow> string \<Rightarrow> bool" where
  "noRule unicode incomingMsg =
     (toLowerCase unicode incomingMsg \<noteq> ''hi''
      \<and> \<not> includesStr (toLowerCase unicode incomingMsg) ''who are you''
      \<and> \<not> includesStr (toLowerCase unicode incomingMsg) ''tell me more about patrick'')"

text \<open>
  What a turn that meets no storage failure does, read off the handler: the Human turn it
  stores (after the receipt notice, its first call), the context its prompt is built
  from, the reply of the completion handlers and the entry they log, the reply of the
  turn, the calls of the turn in their order, and the Bot turn it stores (with the third
  call from the end).
\<close>

definition humanTurn :: "msg \<Rightarrow> world \<Rightarrow> turn" where
  "humanTurn m w =
     \<lparr>message = trim (msg_body m), role = Human, timestamp = clock w (Suc (length (events w)))\<rparr>"

definition promptContext :: "msg \<Rightarrow> world \<Rightarrow> string list" where
  "promptContext m w =
     map entry (slice (- 20) (historyOf (msg_from m) w @ [humanTurn m w]))
       @ [''Human: '' @ trim (msg_body m)]"

definition completionReply :: "completion \<Rightarrow> string" where
  "completionReply c =
     (case c of
        Content t \<Rightarrow> trim t
      | NoContent err \<Rightarrow> fallbackReply
      | Rejected err \<Rightarrow> fallbackReply)"

definition completionLog :: "completion \<Rightarrow> event list" where
  "completionLog c =
     (case c of
        Content t \<Rightarrow> []
      | NoContent err \<Rightarrow> [LogError (''OpenAI API error: '' @ err)]
      | Rejected err \<Rightarrow> [LogError (''OpenAI API error: '' @ err)])"

definition replyTo :: "(string \<Rightarrow> completion) \<Rightarrow> msg \<Rightarrow> world \<Rightarrow> string" where
  "replyTo openai m w =
     (if toLowerCase (unicodeLower w) (trim (msg_body m)) = ''hi'' then greetingReply
      else if includesStr (toLowerCase (unicodeLower w) (trim (msg_body m))) ''who are you'' then whoAreYouReply
      else if includesStr (toLowerCase (unicodeLower w) (trim (msg_body m))) ''tell me more about patrick''
        then patrickReply
      else completionReply (openai (buildPrompt (promptContext m w))))"

definition turnEvents :: "(string \<Rightarrow> completion) \<Rightarrow> msg \<Rightarrow> world \<Rightarrow> event list" where
  "turnEvents openai m w =
     [LogInfo (''Received message from '' @ msg_from m @ '': '' @ trim (msg_body m)),
      ConversationsUpdateOne (msg_from m) Human (trim (msg_body m)),
      UsersFindOne (msg_from m)]
     @ (case find (\<lambda>u. sender u = msg_from m) (usersCollection w) of
          None \<Rightarrow> [UsersInsertOne (msg_from m)]
        | Some u \<Rightarrow> [])
     @ [ConversationsFindOne (msg_from m)]
     @ (if noRule (unicodeLower w) (trim (msg_body m))
        then CompletionsCreate (buildPrompt (promptContext m w))
          # completionLog (openai (buildPrompt (promptContext m w)))
        else [])
     @ [ConversationsUpdateOne (msg_from m) Bot (replyTo openai m w),
        MsgReply (msg_from m) (replyTo openai m w),
        LogInfo (''Sent response to '' @ msg_from m @ '': '' @ replyTo openai m w)]"

definition botTurn :: "(string \<Rightarrow> completion) \<Rightarrow> msg \<Rightarrow> world \<Rightarrow> turn" where
  "botTurn openai m w =
     \<lparr>message = replyTo openai m w, role = Bot,
      timestamp = clock w (length (events w) + length (turnEvents openai m w) - 3)\<rparr>"

text \<open>The calls made between two worlds of one run.\<close>

definition newEvents :: "world \<Rightarrow> world \<Rightarrow> event list" where
  "newEvents w w' = drop (length (events w)) (events w')"

fun isStorageCall :: "event \<Rightarrow> bool" where
  "isStorageCall (UsersFindOne s) = True"
| "isStorageCall (UsersInsertOne s) = True"
| "isStorageCall (ConversationsUpdateOne s r m) = True"
| "isStorageCall (ConversationsFindOne s) = True"
| "isStorageCall ev = False"

fun isLog :: "event \<Rightarrow> bool" where
  "isLog (LogInfo t) = True"
| "isLog (LogError t) = True"
| "isLog ev = False"

fun isReply :: "event \<Rightarrow> bool" where
  "isReply (MsgReply s t) = True"
| "isReply ev = False"

fun isCompletion :: "event \<Rightarrow> bool" where
  "isCompletion (CompletionsCreate p) = True"
| "isCompletion ev = False"

text \<open>
  The log entry of the completion handlers; the calls that \<^verbatim>\<open>getBotResponse\<close> and the
  stores make (storage calls, the completion request, the log entry of its failure); a run
  of such calls that ends in a storage call.
\<close>

fun isGatewayError :: "event \<Rightarrow> bool" where
  "isGatewayError (LogError t) = prefix ''OpenAI API error: '' t"
| "isGatewayError ev = False"

definition isInternal :: "event \<Rightarrow> bool" where
  "isInternal ev = (isStorageCall ev \<or> isCompletion ev \<or> isGatewayError ev)"

definition endsInCall :: "event list \<Rightarrow> bool" where
  "endsInCall n = (n \<noteq> [] \<and> isStorageCall (last n) \<and> list_all isInternal (butlast n))"

text \<open>
  The storage calls made between two worlds of one run, and the outcomes that the storage
  gave them: every storage call takes the next outcome of the world it is made in, so the
  calls made from \<open>w\<close> on were given the leading outcomes of \<open>w\<close>, call by call.
\<close>

definition storageCalls :: "world \<Rightarrow> world \<Rightarrow> event list" where
  "storageCalls w w' = filter isStorageCall (newEvents w w')"

definition outcomes :: "world \<Rightarrow> world \<Rightarrow> bool list" where
  "outcomes w w' = take (length (storageCalls w w')) (faults w)"

text \<open>
  An operation accounts for its storage calls when it only adds calls, takes one outcome
  per storage call, and ends with an error exactly when the last storage call it made was
  rejected, the ones before it having succeeded.
\<close>

definition accounted :: "world \<Rightarrow> 'a promise \<Rightarrow> bool" where
  "accounted w p =
     (prefix (events w) (events (snd p))
      \<and> faults (snd p) = drop (length (storageCalls w (snd p))) (faults w)
      \<and> (case fst p of
           Inl e \<Rightarrow> outcomes w (snd p)
             = replicate (length (storageCalls w (snd p)) - 1) False @ [True]
         | Inr x \<Rightarrow> True \<notin> set (outcomes w (snd p))))"

text \<open>
  The same world with a storage that rejects no call. A run follows another one when it
  only adds calls, its calls are the first calls of the other, and, if it succeeds, the
  other yields the same value and the same world.
\<close>

definition calm :: "world \<Rightarrow> world" where
  "calm w = w\<lparr>faults := []\<rparr>"

definition follows :: "world \<Rightarrow> 'a promise \<Rightarrow> 'a promise \<Rightarrow> bool" where
  "follows w p p0 =
     (prefix (events w) (events (snd p))
      \<and> prefix (events (snd p)) (events (snd p0))
      \<and> (case fst p of Inl e \<Rightarrow> True | Inr x \<Rightarrow> p0 = (Inr x, calm (snd p))))"

text \<open>\<open>a\<close> occurs in the list before the first occurrence of \<open>b\<close>.\<close>

definition before :: "event \<Rightarrow> event \<Rightarrow> event list \<Rightarrow> bool" where
  "before a b es = (a \<in> set (takeWhile (\<lambda>e. e \<noteq> b) es))"

text \<open>
  Between two worlds nothing stored was lost or changed: the user documents of the first
  are the leading user documents of the second, and each conversation document of the
  first is, at its place, a document of the same sender whose history starts with the
  old one.
\<close>

definition grown :: "conversation \<Rightarrow> conversation \<Rightarrow> bool" where
  "grown c c' = (sender c' = sender c \<and> prefix (history c) (history c'))"

definition appendOnly :: "world \<Rightarrow> world \<Rightarrow> bool" where
  "appendOnly w w' =
     (prefix (usersCollection w) (usersCollection w')
      \<and> length (conversationsCollection w) \<le> length (conversationsCollection w')
      \<and> list_all2 grown (conversationsCollection w)
           (take (length (conversationsCollection w)) (conversationsCollection w')))"

section \<open>Worlds and services of the examples\<close>

definition emptyWorld :: world where
  "emptyWorld =
     \<lparr>usersCollection = [], conversationsCollection = [], clock = (\<lambda>k. k),
      unicodeLower = (\<lambda>s. s), faults = [],
      events = []\<rparr>"

text \<open>A world whose record of sender \<open>a\<close> holds 21 turns.\<close>

definition longWorld :: world where
  "longWorld =
     emptyWorld\<lparr>conversationsCollection :=
       [\<lparr>sender = ''a'',
         history = \<lparr>message = ''first'', role = Human, timestamp = 0\<rparr>
           # replicate 20 \<lparr>message = ''again'', role = Bot, timestamp = 1\<rparr>\<rparr>]\<rparr>"

text \<open>A completion service whose every request times out.\<close>

definition timeoutService :: "string \<Rightarrow> completion" where
  "timeoutService p = Rejected ''timeout''"

text \<open>
  Messages of sender \<open>a\<close>: a greeting with a capital letter, with a space before it and
  a space, a no-break space and a line feed after it; a near-greeting; the message that
  meets two rules; one that meets the last rule only.
\<close>

definition hiMsg :: msg where
  "hiMsg = \<lparr>msg_from = ''a'', msg_body = '' Hi '' @ [CHR 0xC2, CHR 0xA0, CHR 0x0A]\<rparr>"

definition hiyaMsg :: msg where
  "hiyaMsg = \<lparr>msg_from = ''a'', msg_body = ''hiya''\<rparr>"

definition priorityMsg :: msg where
  "priorityMsg = \<lparr>msg_from = ''a'', msg_body = ''Who are you? Tell me more about Patrick''\<rparr>"

definition patrickMsg :: msg where
  "patrickMsg = \<lparr>msg_from = ''a'', msg_body = ''Tell me more about Patrick!''\<rparr>"

text \<open>
  Case tables that know, outside ASCII, the Kelvin sign only; a world with these tables;
  and a message of sender \<open>a\<close> that meets the last rule through them: its last
  letter is the Kelvin sign, U+212A, whose lowercase is \<open>k\<close>.
\<close>

fun kelvinLower :: "string \<Rightarrow> string" where
  "kelvinLower (a # b # c # s) =
     (if a = CHR 0xE2 \<and> b = CHR 0x84 \<and> c = CHR 0xAA then CHR ''k'' # kelvinLower s
      else lowerChar a # kelvinLower (b # c # s))"
| "kelvinLower s = map lowerChar s"

definition kelvinWorld :: world where
  "kelvinWorld = emptyWorld\<lparr>unicodeLower := kelvinLower\<rparr>"

definition kelvinMsg :: msg where
  "kelvinMsg =
     \<lparr>msg_from = ''a'', msg_body = ''Tell me more about Patric'' @ [CHR 0xE2, CHR 0x84, CHR 0xAA]\<rparr>"

text \<open>Two messages of sender \<open>a\<close>, delivered one after the other.\<close>

definition twoDeliveries :: "((string \<Rightarrow> completion) \<times> msg) list" where
  "twoDeliveries = [(timeoutService, hiMsg), (timeoutService, hiyaMsg)]"

text \<open>
  The empty world with a storage that rejects the first call, and one that rejects the
  fifth.
\<close>

definition failingWorld :: world where
  "failingWorld = emptyWorld\<lparr>faults := [True]\<rparr>"

definition lateFailingWorld :: world where
  "lateFailingWorld = emptyWorld\<lparr>faults := [False, False, False, False, True]\<rparr>"

section \<open>Basic facts\<close>

lemma await_Inl [simp]: "await (Inl e, w) k = (Inl e, w)"
  by (simp add: await_def)

lemma await_Inr [simp]: "await (Inr x, w) k = k x w"
  by (simp add: await_def)

lemma slice_last: "0 < n \<Longrightarrow> slice (- int n) xs = drop (length xs - n) xs"
  by (simp add: slice_def Let_def max_def nat_diff_distrib')

lemma storageCall_accepts:
  "\<not> nextRejects w \<Longrightarrow> storageCall ev w = (Inr (), passed ev w)"
  by (cases w) (auto simp add: storageCall_def nextRejects_def passed_def split: list.splits)

lemma passed_fields [simp]:
  "usersCollection (passed ev w) = usersCollection w"
  "conversationsCollection (passed ev w) = conversationsCollection w"
  "clock (passed ev w) = clock w"
  "unicodeLower (passed ev w) = unicodeLower w"
  "events (passed ev w) = events w @ [ev]"
  "faults (passed ev w) = tl (faults w)"
  by (simp_all add: passed_def emit_def)

lemma emit_fields [simp]:
  "usersCollection (emit ev w) = usersCollection w"
  "conversationsCollection (emit ev w) = conversationsCollection w"
  "clock (emit ev w) = clock w"
  "unicodeLower (emit ev w) = unicodeLower w"
  "events (emit ev w) = events w @ [ev]"
  "faults (emit ev w) = faults w"
  by (simp_all add: emit_def)

lemma noFaults_accepts: "noFaults w \<Longrightarrow> \<not> nextRejects w"
  by (auto simp add: noFaults_def nextRejects_def split: list.splits)

lemma noFaults_passed [simp]: "noFaults w \<Longrightarrow> noFaults (passed ev w)"
  by (cases "faults w") (auto simp add: noFaults_def)

lemma noFaults_updates [simp]:
  "noFaults (emit ev w) = noFaults w"
  "noFaults (w\<lparr>usersCollection := us\<rparr>) = noFaults w"
  "noFaults (w\<lparr>conversationsCollection := cs\<rparr>) = noFaults w"
  by (simp_all add: noFaults_def)

lemma storageCall_ok [simp]: "noFaults w \<Longrightarrow> storageCall ev w = (Inr (), passed ev w)"
  by (simp add: storageCall_accepts noFaults_accepts)

lemma getUserProfile_ok:
  "noFaults w \<Longrightarrow> getUserProfile s w =
     (case find (\<lambda>u. sender u = s) (usersCollection w) of
        Some u \<Rightarrow> (Inr u, passed (UsersFindOne s) w)
      | None \<Rightarrow>
          (Inr \<lparr>sender = s, preferences = [], favoriteResponses = [], conversationHistory = []\<rparr>,
           (passed (UsersInsertOne s) (passed (UsersFindOne s) w))
             \<lparr>usersCollection := usersCollection w
                @ [\<lparr>sender = s, preferences = [], favoriteResponses = [],
                    conversationHistory = []\<rparr>]\<rparr>))"
  by (simp add: getUserProfile_def usersFindOne_def usersInsertOne_def Let_def split: option.splits)

lemma updateConversationHistory_ok:
  "noFaults w \<Longrightarrow> updateConversationHistory s m r w =
     (Inr (), (passed (ConversationsUpdateOne s r m) w)
        \<lparr>conversationsCollection :=
           pushHistory s \<lparr>message = m, role = r, timestamp = newDate w\<rparr>
             (conversationsCollection w)\<rparr>)"
  by (simp add: updateConversationHistory_def conversationsUpdateOne_def)

lemma getConversationHistory_ok:
  "noFaults w \<Longrightarrow> getConversationHistory s w =
     (Inr (map entry (slice (- 20) (historyOf s w))), passed (ConversationsFindOne s) w)"
  by (simp add: getConversationHistory_def conversationsFindOne_def historyOf_def slice_def
      split: option.splits)

lemma find_pushHistory:
  "find (\<lambda>c. sender c = s) (pushHistory s t cs) =
     Some (case find (\<lambda>c. sender c = s) cs of
             None \<Rightarrow> \<lparr>sender = s, history = [t]\<rparr>
           | Some c \<Rightarrow> c\<lparr>history := history c @ [t]\<rparr>)"
  by (induction cs) auto

lemma historyOf_push:
  "conversationsCollection w' = pushHistory s t (conversationsCollection w)
   \<Longrightarrow> historyOf s w' = historyOf s w @ [t]"
  by (simp add: historyOf_def find_pushHistory split: option.splits)

lemma createCompletion_eq:
  "createCompletion openai p w =
     (completionReply (openai p),
      w\<lparr>events := events w @ CompletionsCreate p # completionLog (openai p)\<rparr>)"
  by (simp add: createCompletion_def completionReply_def completionLog_def emit_def Let_def
      split: completion.splits)

lemma noFaults_events [simp]: "noFaults (w\<lparr>events := es\<rparr>) = noFaults w"
  by (simp add: noFaults_def)

lemma respond_ok:
  "noFaults w \<Longrightarrow> respond s r w =
     (Inr r, (passed (ConversationsUpdateOne s Bot r) w)
        \<lparr>conversationsCollection :=
           pushHistory s \<lparr>message = r, role = Bot, timestamp = newDate w\<rparr>
             (conversationsCollection w)\<rparr>)"
  by (simp add: respond_def updateConversationHistory_ok)

lemmas turn_ok = getUserProfile_ok getConversationHistory_ok respond_ok
  updateConversationHistory_ok createCompletion_eq

lemma getBotResponse_ok:
  fixes openai s incomingMsg w
  assumes "noFaults w"
  defines "w' \<equiv> snd (getBotResponse openai s incomingMsg w)"
    and "hist \<equiv> map entry (slice (- 20) (historyOf s w)) @ [''Human: '' @ incomingMsg]"
  defines "r \<equiv> (if toLowerCase (unicodeLower w) incomingMsg = ''hi'' then greetingReply
               else if includesStr (toLowerCase (unicodeLower w) incomingMsg) ''who are you'' then whoAreYouReply
               else if includesStr (toLowerCase (unicodeLower w) incomingMsg) ''tell me more about patrick''
                 then patrickReply
               else completionReply (openai (buildPrompt hist)))"
  shows "fst (getBotResponse openai s incomingMsg w) = Inr r"
    and "usersCollection w' =
       (case find (\<lambda>u. sender u = s) (usersCollection w) of
          None \<Rightarrow> usersCollection w @ [\<lparr>sender = s, preferences = [],
            favoriteResponses = [], conversationHistory = []\<rparr>]
        | Some u \<Rightarrow> usersCollection w)"
    and "conversationsCollection w' =
       pushHistory s \<lparr>message = r, role = Bot, timestamp = clock w (length (events w') - 1)\<rparr>
         (conversationsCollection w)"
    and "clock w' = clock w"
    and "noFaults w'"
    and "events w' = events w @ [UsersFindOne s]
               @ (case find (\<lambda>u. sender u = s) (usersCollection w) of
                    None \<Rightarrow> [UsersInsertOne s] | Some u \<Rightarrow> [])
               @ [ConversationsFindOne s]
               @ (if noRule (unicodeLower w) incomingMsg
                  then CompletionsCreate (buildPrompt hist)
                    # completionLog (openai (buildPrompt hist)) else [])
               @ [ConversationsUpdateOne s Bot r]"
  using assms(1) unfolding w'_def r_def hist_def
  by (simp_all add: getBotResponse_def turn_ok Let_def noRule_def historyOf_def newDate_def
      split: option.splits)

lemma await_fst: "fst p = Inr x \<Longrightarrow> await p k = k x (snd p)"
  by (cases p) simp

lemma onMessage_ok:
  fixes openai m w
  assumes nf: "noFaults w"
  defines "w' \<equiv> snd (onMessage openai m w)"
  shows "fst (onMessage openai m w) = Inr (replyTo openai m w)"
    and "usersCollection w' =
       (case find (\<lambda>u. sender u = msg_from m) (usersCollection w) of
          None \<Rightarrow> usersCollection w @ [\<lparr>sender = msg_from m, preferences = [],
            favoriteResponses = [], conversationHistory = []\<rparr>]
        | Some u \<Rightarrow> usersCollection w)"
    and "conversationsCollection w' =
       pushHistory (msg_from m) (botTurn openai m w)
         (pushHistory (msg_from m) (humanTurn m w) (conversationsCollection w))"
    and "clock w' = clock w"
    and "noFaults w'"
    and "events w' = events w @ turnEvents openai m w"
proof -
  let ?s = "msg_from m" and ?i = "trim (msg_body m)"
  define w1 where
    "w1 = emit (LogInfo (''Received message from '' @ ?s @ '': '' @ ?i)) w"
  define w2 where
    "w2 = (passed (ConversationsUpdateOne ?s Human ?i) w1)
       \<lparr>conversationsCollection := pushHistory ?s (humanTurn m w) (conversationsCollection w)\<rparr>"
  define w3 where "w3 = snd (getBotResponse openai ?s ?i w2)"
  have nf2: "noFaults w2"
    using nf by (simp add: w2_def w1_def)
  have upd: "updateConversationHistory ?s ?i Human w1 = (Inr (), w2)"
    using nf by (simp add: updateConversationHistory_ok w1_def w2_def humanTurn_def newDate_def)
  have hist: "historyOf ?s w2 = historyOf ?s w @ [humanTurn m w]"
    by (rule historyOf_push) (simp add: w2_def)
  have fields: "usersCollection w2 = usersCollection w" "clock w2 = clock w"
    "unicodeLower w2 = unicodeLower w"
    "conversationsCollection w2 = pushHistory ?s (humanTurn m w) (conversationsCollection w)"
    "events w2 = events w @ [LogInfo (''Received message from '' @ ?s @ '': '' @ ?i),
       ConversationsUpdateOne ?s Human ?i]"
    by (simp_all add: w2_def w1_def)
  note gb = getBotResponse_ok [OF nf2, of openai ?s ?i, folded w3_def]
  have reply: "fst (getBotResponse openai ?s ?i w2) = Inr (replyTo openai m w)"
    using gb(1) by (simp add: hist replyTo_def promptContext_def fields)
  have run: "onMessage openai m w =
      (Inr (replyTo openai m w),
       emit (LogInfo (''Sent response to '' @ ?s @ '': '' @ replyTo openai m w))
         (emit (MsgReply ?s (replyTo openai m w)) w3))"
    unfolding onMessage_def Let_def w1_def [symmetric] upd await_Inr await_fst [OF reply] w3_def
    by (rule refl)
  show "fst (onMessage openai m w) = Inr (replyTo openai m w)"
    by (simp add: run)
  show "usersCollection w' =
       (case find (\<lambda>u. sender u = msg_from m) (usersCollection w) of
          None \<Rightarrow> usersCollection w @ [\<lparr>sender = msg_from m, preferences = [],
            favoriteResponses = [], conversationHistory = []\<rparr>]
        | Some u \<Rightarrow> usersCollection w)"
    by (simp add: w'_def run gb(2) fields split: option.splits)
  have ev3: "events w3 = events w @ butlast (butlast (turnEvents openai m w))"
    using reply gb(1)
    by (simp add: gb(6) fields turnEvents_def hist promptContext_def butlast_append
        split: option.splits)
  have "length (events w3) - 1 = length (events w) + length (turnEvents openai m w) - 3"
    by (simp add: ev3) (simp add: turnEvents_def)
  then show "conversationsCollection w' =
       pushHistory (msg_from m) (botTurn openai m w)
         (pushHistory (msg_from m) (humanTurn m w) (conversationsCollection w))"
    using reply gb(1) by (simp add: w'_def run gb(3) gb(4) fields botTurn_def)
  show "clock w' = clock w"
    by (simp add: w'_def run gb(4) fields)
  show "noFaults w'"
    by (simp add: w'_def run gb(5))
  show "events w' = events w @ turnEvents openai m w"
    using reply gb(1)
    by (simp add: w'_def run gb(6) fields turnEvents_def hist promptContext_def
        split: option.splits)
qed

lemma historyOf_onMessage:
  assumes "noFaults w"
  shows "historyOf (msg_from m) (snd (onMessage openai m w))
    = historyOf (msg_from m) w @ [humanTurn m w, botTurn openai m w]"
proof -
  let ?mid = "w\<lparr>conversationsCollection :=
      pushHistory (msg_from m) (humanTurn m w) (conversationsCollection w)\<rparr>"
  have "historyOf (msg_from m) (snd (onMessage openai m w))
      = historyOf (msg_from m) ?mid @ [botTurn openai m w]"
    by (rule historyOf_push) (simp add: onMessage_ok(3) [OF assms])
  moreover have "historyOf (msg_from m) ?mid = historyOf (msg_from m) w @ [humanTurn m w]"
    by (rule historyOf_push) simp
  ultimately show ?thesis
    by simp
qed

section \<open>The calls of a turn, whatever the storage does\<close>

lemma storageCall_keeps:
  "usersCollection (snd (storageCall ev w)) = usersCollection w"
  "conversationsCollection (snd (storageCall ev w)) = conversationsCollection w"
  "clock (snd (storageCall ev w)) = clock w"
  "unicodeLower (snd (storageCall ev w)) = unicodeLower w"
  "events (snd (storageCall ev w)) = events w @ [ev]"
  by (simp_all add: storageCall_def emit_def split: list.splits)

lemma storageCall_eq:
  "storageCall ev w = (if nextRejects w then Inl StorageError else Inr (), passed ev w)"
  by (cases w) (auto simp add: storageCall_def nextRejects_def passed_def split: list.splits)

lemma await_events:
  assumes "\<And>x w1. events (snd (k x w1)) = events w1"
  shows "events (snd (await p k)) = events (snd p)"
proof (cases p)
  case (Pair r w1)
  with assms show ?thesis
    by (cases r) simp_all
qed

lemma primitive_events:
  "events (snd (usersFindOne s w)) = events w @ [UsersFindOne s]"
  "events (snd (usersInsertOne u w)) = events w @ [UsersInsertOne (sender u)]"
  "events (snd (conversationsUpdateOne s t w))
     = events w @ [ConversationsUpdateOne s (role t) (message t)]"
  "events (snd (conversationsFindOne s w)) = events w @ [ConversationsFindOne s]"
  by (simp_all add: usersFindOne_def usersInsertOne_def conversationsUpdateOne_def
      conversationsFindOne_def await_events storageCall_keeps)

lemma store_events:
  "events (snd (updateConversationHistory s m r w)) = events w @ [ConversationsUpdateOne s r m]"
  "events (snd (getConversationHistory s w)) = events w @ [ConversationsFindOne s]"
  "events (snd (respond s t w)) = events w @ [ConversationsUpdateOne s Bot t]"
proof -
  show u: "events (snd (updateConversationHistory s m r w))
      = events w @ [ConversationsUpdateOne s r m]" for m r
    by (simp add: updateConversationHistory_def primitive_events)
  show "events (snd (respond s t w)) = events w @ [ConversationsUpdateOne s Bot t]"
    by (simp add: respond_def await_events u)
  show "events (snd (getConversationHistory s w)) = events w @ [ConversationsFindOne s]"
    unfolding getConversationHistory_def
    by (subst await_events) (simp_all add: primitive_events split: option.splits)
qed

lemma getUserProfile_events:
  "events (snd (getUserProfile s w)) = events w @ [UsersFindOne s]
   \<or> events (snd (getUserProfile s w)) = events w @ [UsersFindOne s, UsersInsertOne s]"
proof (cases "usersFindOne s w")
  case (Pair r w1)
  then have e1: "events w1 = events w @ [UsersFindOne s]"
    using primitive_events(1) [of s w] by simp
  show ?thesis
  proof (cases r)
    case (Inl e)
    with Pair e1 show ?thesis
      by (simp add: getUserProfile_def)
  next
    case (Inr found)
    show ?thesis
    proof (cases found)
      case (Some u)
      with Pair Inr e1 show ?thesis
        by (simp add: getUserProfile_def)
    next
      case None
      let ?u = "\<lparr>sender = s, preferences = [], favoriteResponses = [],
          conversationHistory = []\<rparr>"
      obtain r2 w2 where ins: "usersInsertOne ?u w1 = (r2, w2)"
        by (cases "usersInsertOne ?u w1")
      then have "events w2 = events w1 @ [UsersInsertOne s]"
        using primitive_events(2) [of ?u w1] by simp
      with Pair Inr None e1 ins show ?thesis
        by (cases r2) (simp_all add: getUserProfile_def Let_def)
    qed
  qed
qed

lemma getUserProfile_conversations:
  "conversationsCollection (snd (getUserProfile s w)) = conversationsCollection w"
  by (simp add: getUserProfile_def usersFindOne_def usersInsertOne_def storageCall_eq Let_def
      split: option.splits)

lemma getUserProfile_unicode:
  "unicodeLower (snd (getUserProfile s w)) = unicodeLower w"
  by (simp add: getUserProfile_def usersFindOne_def usersInsertOne_def storageCall_eq Let_def
      split: option.splits)

lemma getConversationHistory_eq:
  "getConversationHistory s w =
     (if nextRejects w then Inl StorageError
      else Inr (map entry (slice (- 20) (historyOf s w))),
      passed (ConversationsFindOne s) w)"
  by (simp add: getConversationHistory_def conversationsFindOne_def storageCall_eq historyOf_def
      slice_def split: option.splits)

lemma endsInCall_single: "isStorageCall c \<Longrightarrow> endsInCall [c]"
  by (simp add: endsInCall_def)

lemma endsInCall_append: "list_all isInternal a \<Longrightarrow> endsInCall b \<Longrightarrow> endsInCall (a @ b)"
  by (simp add: endsInCall_def butlast_append)

lemma completionLog_internal: "list_all isInternal (completionLog c)"
  by (cases c) (simp_all add: completionLog_def isInternal_def)

lemma getBotResponse_events:
  "\<exists>n. events (snd (getBotResponse openai s i w)) = events w @ n \<and> endsInCall n"
proof -
  obtain r1 w1 where g: "getUserProfile s w = (r1, w1)"
    by (cases "getUserProfile s w")
  obtain n1 where e1: "events w1 = events w @ n1" and c1: "endsInCall n1"
    and i1: "list_all isInternal n1"
    using getUserProfile_events [of s w] g
    by (auto simp add: endsInCall_def isInternal_def)
  show ?thesis
  proof (cases r1)
    case (Inl e)
    with g e1 c1 show ?thesis
      by (simp add: getBotResponse_def)
  next
    case user: (Inr u)
    obtain r2 w2 where h: "getConversationHistory s w1 = (r2, w2)"
      by (cases "getConversationHistory s w1")
    then have e2: "events w2 = events w @ n1 @ [ConversationsFindOne s]"
      using store_events(2) [of s w1] e1 by simp
    have i2: "list_all isInternal (n1 @ [ConversationsFindOne s])"
      using i1 by (simp add: isInternal_def)
    show ?thesis
    proof (cases r2)
      case (Inl e)
      have "endsInCall (n1 @ [ConversationsFindOne s])"
        using i1 by (rule endsInCall_append) (simp add: endsInCall_single)
      with g user h Inl e2 show ?thesis
        by (simp add: getBotResponse_def)
    next
      case fetched: (Inr f)
      have rule: "\<exists>n. events (snd (respond s t w2)) = events w @ n \<and> endsInCall n" for t
      proof -
        have "events (snd (respond s t w2))
            = events w @ (n1 @ [ConversationsFindOne s]) @ [ConversationsUpdateOne s Bot t]"
          by (simp add: store_events e2)
        moreover have "endsInCall ((n1 @ [ConversationsFindOne s])
            @ [ConversationsUpdateOne s Bot t])"
          using i2 by (rule endsInCall_append) (simp add: endsInCall_single)
        ultimately show ?thesis
          by blast
      qed
      have gateway: "\<exists>n. events (snd (respond s (fst (createCompletion openai p w2))
          (snd (createCompletion openai p w2)))) = events w @ n \<and> endsInCall n" for p
      proof -
        let ?c = "CompletionsCreate p # completionLog (openai p)"
        have "events (snd (respond s (fst (createCompletion openai p w2))
            (snd (createCompletion openai p w2))))
            = events w @ ((n1 @ [ConversationsFindOne s]) @ ?c)
              @ [ConversationsUpdateOne s Bot (completionReply (openai p))]"
          by (simp add: store_events createCompletion_eq e2)
        moreover have "list_all isInternal ((n1 @ [ConversationsFindOne s]) @ ?c)"
          using i2 completionLog_internal [of "openai p"] by (simp add: isInternal_def)
        then have "endsInCall (((n1 @ [ConversationsFindOne s]) @ ?c)
            @ [ConversationsUpdateOne s Bot (completionReply (openai p))])"
          by (rule endsInCall_append) (simp add: endsInCall_single)
        ultimately show ?thesis
          by blast
      qed
      from g user h fetched rule gateway show ?thesis
        by (simp add: getBotResponse_def Let_def split_beta)
    qed
  qed
qed

lemma getBotResponse_completion:
  assumes req: "CompletionsCreate p \<in> set (newEvents w (snd (getBotResponse openai s i w)))"
  shows "noRule (unicodeLower w) i
    \<and> p = buildPrompt (map entry (slice (- 20) (historyOf s w)) @ [''Human: '' @ i])"
proof -
  let ?hist = "map entry (slice (- 20) (historyOf s w)) @ [''Human: '' @ i]"
  obtain r1 w1 where g: "getUserProfile s w = (r1, w1)"
    by (cases "getUserProfile s w")
  obtain n1 where e1: "events w1 = events w @ n1" and c1: "list_all isStorageCall n1"
    using getUserProfile_events [of s w] g by auto
  have h1: "historyOf s w1 = historyOf s w"
    using getUserProfile_conversations [of s w] g by (simp add: historyOf_def)
  have u1: "unicodeLower w1 = unicodeLower w"
    using getUserProfile_unicode [of s w] g by simp
  from c1 have quiet: "CompletionsCreate p \<notin> set n1"
    by (auto simp add: list_all_iff)
  show ?thesis
  proof (cases r1)
    case (Inl e)
    with g e1 have "newEvents w (snd (getBotResponse openai s i w)) = n1"
      by (simp add: getBotResponse_def newEvents_def)
    with req quiet show ?thesis
      by simp
  next
    case user: (Inr u)
    show ?thesis
    proof (cases "nextRejects w1")
      case True
      with g user e1 have "newEvents w (snd (getBotResponse openai s i w))
          = n1 @ [ConversationsFindOne s]"
        by (simp add: getBotResponse_def getConversationHistory_eq newEvents_def)
      with req quiet show ?thesis
        by simp
    next
      case False
      let ?w2 = "passed (ConversationsFindOne s) w1"
      have run: "getBotResponse openai s i w =
          (if toLowerCase (unicodeLower w) i = ''hi'' then respond s greetingReply ?w2
           else if includesStr (toLowerCase (unicodeLower w) i) ''who are you''
             then respond s whoAreYouReply ?w2
           else if includesStr (toLowerCase (unicodeLower w) i) ''tell me more about patrick''
             then respond s patrickReply ?w2
           else respond s (fst (createCompletion openai (buildPrompt ?hist) ?w2))
                  (snd (createCompletion openai (buildPrompt ?hist) ?w2)))"
        using g user False
        by (simp add: getBotResponse_def getConversationHistory_eq h1 u1 Let_def split_beta)
      show ?thesis
      proof (cases "noRule (unicodeLower w) i")
        case True
        then have "newEvents w (snd (getBotResponse openai s i w))
            = n1 @ [ConversationsFindOne s, CompletionsCreate (buildPrompt ?hist)]
              @ completionLog (openai (buildPrompt ?hist))
              @ [ConversationsUpdateOne s Bot (completionReply (openai (buildPrompt ?hist)))]"
          by (simp add: run noRule_def store_events createCompletion_eq e1 newEvents_def)
        moreover have "CompletionsCreate p \<notin> set (completionLog c)" for c
          by (cases c) (simp_all add: completionLog_def)
        ultimately show ?thesis
          using req quiet True by auto
      next
        case False
        then have "\<exists>t. newEvents w (snd (getBotResponse openai s i w))
            = n1 @ [ConversationsFindOne s, ConversationsUpdateOne s Bot t]"
          by (auto simp add: run noRule_def store_events e1 newEvents_def)
        with req quiet show ?thesis
          by auto
      qed
    qed
  qed
qed

lemma onMessage_completion:
  assumes req: "CompletionsCreate p \<in> set (newEvents w (snd (onMessage openai m w)))"
  shows "noRule (unicodeLower w) (trim (msg_body m)) \<and> p = buildPrompt (promptContext m w)"
proof -
  let ?s = "msg_from m" and ?i = "trim (msg_body m)"
  let ?l = "LogInfo (''Received message from '' @ ?s @ '': '' @ ?i)"
  let ?k = "\<lambda>botResponse w3. (Inr botResponse,
      emit (LogInfo (''Sent response to '' @ ?s @ '': '' @ botResponse))
        (emit (MsgReply ?s botResponse) w3)) :: string promise"
  define w1 where "w1 = emit ?l w"
  define w2 where "w2 = (passed (ConversationsUpdateOne ?s Human ?i) w1)
       \<lparr>conversationsCollection := pushHistory ?s (humanTurn m w) (conversationsCollection w)\<rparr>"
  have upd: "updateConversationHistory ?s ?i Human w1
      = (if nextRejects w1 then (Inl StorageError, passed (ConversationsUpdateOne ?s Human ?i) w1)
         else (Inr (), w2))"
    by (simp add: updateConversationHistory_def conversationsUpdateOne_def storageCall_eq
        w2_def w1_def humanTurn_def newDate_def)
  have run: "onMessage openai m w
      = await (updateConversationHistory ?s ?i Human w1)
          (\<lambda>_ w2. await (getBotResponse openai ?s ?i w2) ?k)"
    unfolding onMessage_def Let_def w1_def by (rule refl)
  show ?thesis
  proof (cases "nextRejects w1")
    case True
    then have "newEvents w (snd (onMessage openai m w))
        = [?l, ConversationsUpdateOne ?s Human ?i]"
      unfolding run upd by (simp add: newEvents_def w1_def)
    with req show ?thesis
      by simp
  next
    case False
    obtain r3 w3 where gb: "getBotResponse openai ?s ?i w2 = (r3, w3)"
      by (cases "getBotResponse openai ?s ?i w2")
    obtain n where e3: "events w3 = events w2 @ n"
      using getBotResponse_events [of openai ?s ?i w2] gb by auto
    have e2: "events w2 = events w @ [?l, ConversationsUpdateOne ?s Human ?i]"
      by (simp add: w2_def w1_def)
    have hist: "historyOf ?s w2 = historyOf ?s w @ [humanTurn m w]"
      by (rule historyOf_push) (simp add: w2_def w1_def)
    have "\<exists>tail. newEvents w (snd (onMessage openai m w))
        = [?l, ConversationsUpdateOne ?s Human ?i] @ n @ tail
        \<and> CompletionsCreate p \<notin> set tail"
    proof (cases r3)
      case (Inl e)
      with False gb e3 e2 have "newEvents w (snd (onMessage openai m w))
          = [?l, ConversationsUpdateOne ?s Human ?i] @ n @ []"
        unfolding run upd by (simp add: newEvents_def)
      then show ?thesis
        by (intro exI [where x = "[]"]) simp
    next
      case (Inr b)
      with False gb e3 e2 have "newEvents w (snd (onMessage openai m w))
          = [?l, ConversationsUpdateOne ?s Human ?i] @ n
            @ [MsgReply ?s b, LogInfo (''Sent response to '' @ ?s @ '': '' @ b)]"
        unfolding run upd by (simp add: newEvents_def)
      then show ?thesis
        by (intro exI [where x = "[MsgReply ?s b,
            LogInfo (''Sent response to '' @ ?s @ '': '' @ b)]"]) simp
    qed
    with req have "CompletionsCreate p \<in> set n"
      by auto
    then have "CompletionsCreate p \<in> set (newEvents w2 (snd (getBotResponse openai ?s ?i w2)))"
      using gb e3 by (simp add: newEvents_def)
    moreover have "unicodeLower w2 = unicodeLower w"
      by (simp add: w2_def w1_def)
    ultimately show ?thesis
      using getBotResponse_completion [of p w2 openai ?s ?i]
      by (simp add: hist promptContext_def)
  qed
qed

lemma isCompletion_iff: "isCompletion ev \<longleftrightarrow> (\<exists>p. ev = CompletionsCreate p)"
  by (cases ev) simp_all

lemma rule_without_completion:
  assumes "\<not> noRule (unicodeLower w) (trim (msg_body m))"
  shows "\<not> list_ex isCompletion (newEvents w (snd (onMessage openai m w)))"
proof
  assume "list_ex isCompletion (newEvents w (snd (onMessage openai m w)))"
  then obtain ev where "ev \<in> set (newEvents w (snd (onMessage openai m w)))"
    and "isCompletion ev"
    by (auto simp add: list_ex_iff)
  then obtain p where "CompletionsCreate p \<in> set (newEvents w (snd (onMessage openai m w)))"
    by (auto simp add: isCompletion_iff)
  with assms show False
    using onMessage_completion by blast
qed

section \<open>The recent-history read\<close>

text \<open>
  Claim C4. When the storage call of the read does not reject, \<^verbatim>\<open>getConversationHistory\<close>
  returns at most 20 entries: without a record for the sender the empty list, and
  otherwise the entries \<open>role: message\<close> of the last 20 turns of the record (all of them
  when there are fewer), in the order of the record.
\<close>

theorem getConversationHistory_recent:
  assumes "\<not> nextRejects w"
  shows "\<exists>r. fst (getConversationHistory s w) = Inr r \<and> length r \<le> 20
     \<and> (case find (\<lambda>c. sender c = s) (conversationsCollection w) of
          None \<Rightarrow> r = []
        | Some c \<Rightarrow> r = map entry (drop (length (history c) - 20) (history c))
            \<and> length r = min 20 (length (history c))
            \<and> (\<forall>i < length r. r ! i = roleName (role (history c ! (length (history c) - length r + i)))
                  @ '': '' @ message (history c ! (length (history c) - length r + i))))"
proof (cases "find (\<lambda>c. sender c = s) (conversationsCollection w)")
  case None
  with assms show ?thesis
    by (simp add: getConversationHistory_def conversationsFindOne_def storageCall_accepts
        passed_def emit_def)
next
  case (Some c)
  have sl: "slice (- 20) (history c) = drop (length (history c) - 20) (history c)"
    using slice_last [of 20 "history c"] by simp
  from Some assms show ?thesis
    by (auto simp add: getConversationHistory_def conversationsFindOne_def
        storageCall_accepts passed_def emit_def sl entry_def)
qed

theorem getConversationHistory_recent_witness:
  "\<not> nextRejects longWorld
   \<and> fst (getConversationHistory ''a'' longWorld) = Inr (replicate 20 ''Bot: again'')
   \<and> fst (getConversationHistory ''b'' longWorld) = Inr []"
  using getConversationHistory_recent [of longWorld "''a''"]
    getConversationHistory_recent [of longWorld "''b''"]
  by (auto simp add: longWorld_def emptyWorld_def nextRejects_def entry_def roleName_def)

section \<open>Evaluating the examples\<close>

lemma newEvents_ok:
  "noFaults w \<Longrightarrow> newEvents w (snd (onMessage openai m w)) = turnEvents openai m w"
  by (simp add: newEvents_def onMessage_ok)

lemma noFaults_emptyWorld: "noFaults emptyWorld"
  by (simp add: emptyWorld_def noFaults_def)

lemmas trim_eval = trim_def trimStart_def trimEnd_def whiteSpace_def strip.simps

lemma trim_priority: "trim (msg_body priorityMsg) = ''Who are you? Tell me more about Patrick''"
  by (simp add: priorityMsg_def trim_eval)

lemma lower_priority:
  "toLowerCase unicode ''Who are you? Tell me more about Patrick''
     = ''who are you? tell me more about patrick''"
  by (simp add: toLowerCase_def isAscii_def lowerChar_def)

lemma trim_patrick: "trim (msg_body patrickMsg) = ''Tell me more about Patrick!''"
  by (simp add: patrickMsg_def trim_eval)

lemma lower_patrick:
  "toLowerCase unicode ''Tell me more about Patrick!'' = ''tell me more about patrick!''"
  by (simp add: toLowerCase_def isAscii_def lowerChar_def)

lemma trim_hiMsg: "trim (msg_body hiMsg) = ''Hi''"
  by (simp add: hiMsg_def trim_eval)

lemma trim_hiya: "trim (msg_body hiyaMsg) = ''hiya''"
  by (simp add: hiyaMsg_def trim_eval)

lemma noRule_hiya: "noRule unicode ''hiya''"
  by (simp add: noRule_def toLowerCase_def isAscii_def lowerChar_def)

lemma lower_hi: "t \<in> {''hi'', ''Hi'', ''hI'', ''HI''} \<Longrightarrow> toLowerCase unicode t = ''hi''"
  by (auto simp add: toLowerCase_def isAscii_def lowerChar_def)

lemma trim_kelvin: "trim (msg_body kelvinMsg) = msg_body kelvinMsg"
  by (simp add: kelvinMsg_def trim_eval)

lemma lower_kelvin:
  "toLowerCase (unicodeLower kelvinWorld) (msg_body kelvinMsg) = ''tell me more about patrick''"
  by (simp add: kelvinMsg_def kelvinWorld_def toLowerCase_def isAscii_def lowerChar_def)

lemma noFaults_kelvinWorld: "noFaults kelvinWorld"
  by (simp add: kelvinWorld_def emptyWorld_def noFaults_def)

lemma kelvin_rule:
  "\<not> noRule (unicodeLower kelvinWorld) (trim (msg_body kelvinMsg))"
  "replyTo openai kelvinMsg kelvinWorld = patrickReply"
  by (simp_all add: noRule_def replyTo_def trim_kelvin lower_kelvin)

lemmas run_eval = onMessage_def getBotResponse_def getUserProfile_def getConversationHistory_def
  updateConversationHistory_def respond_def createCompletion_def usersFindOne_def
  usersInsertOne_def conversationsUpdateOne_def conversationsFindOne_def storageCall_def
  emit_def Let_def

lemma late_failing_run:
  "fst (onMessage timeoutService hiyaMsg lateFailingWorld) = Inl StorageError"
  "filter isLog (events (snd (onMessage timeoutService hiyaMsg lateFailingWorld)))
     = [LogInfo ''Received message from a: hiya'', LogError ''OpenAI API error: timeout'']"
  "list_ex isCompletion (events (snd (onMessage timeoutService hiyaMsg lateFailingWorld)))"
  using trim_hiya noRule_hiya
  by (simp_all add: run_eval lateFailingWorld_def emptyWorld_def hiyaMsg_def noRule_def
      timeoutService_def)

lemma failing_run:
  "onMessage timeoutService hiyaMsg failingWorld
     = (Inl StorageError,
        emptyWorld\<lparr>events := [LogInfo ''Received message from a: hiya'',
          ConversationsUpdateOne ''a'' Human ''hiya'']\<rparr>)"
  using trim_hiya
  by (simp add: onMessage_def updateConversationHistory_def conversationsUpdateOne_def
      storageCall_def failingWorld_def emptyWorld_def emit_def hiyaMsg_def Let_def)

lemma late_failing_calls:
  "newEvents lateFailingWorld (snd (onMessage timeoutService hiyaMsg lateFailingWorld))
     = [LogInfo ''Received message from a: hiya'', ConversationsUpdateOne ''a'' Human ''hiya'',
        UsersFindOne ''a'', UsersInsertOne ''a'', ConversationsFindOne ''a'',
        CompletionsCreate (buildPrompt [''Human: hiya'', ''Human: hiya'']),
        LogError ''OpenAI API error: timeout'',
        ConversationsUpdateOne ''a'' Bot fallbackReply]"
  using trim_hiya noRule_hiya
  by (simp add: run_eval lateFailingWorld_def emptyWorld_def hiyaMsg_def noRule_def
      timeoutService_def newEvents_def historyOf_def slice_def entry_def roleName_def)

lemma hiya_run:
  "fst (onMessage timeoutService hiyaMsg emptyWorld) = Inr fallbackReply"
  using onMessage_ok(1) [OF noFaults_emptyWorld, of timeoutService hiyaMsg] noRule_hiya
  by (simp add: replyTo_def noRule_def trim_hiya completionReply_def timeoutService_def)


section \<open>The rules\<close>

text \<open>
  Claim C2. In a turn without storage failure the reply follows the order of the rules:
  a message that is \<open>hi\<close> after lowercasing gets the greeting; otherwise one that
  contains \<open>who are you\<close> gets the self-identification, whether or not it also contains
  \<open>tell me more about patrick\<close>; otherwise one that contains the latter gets the
  description of the creator. Whenever a rule applies, no completion is requested,
  whatever the storage does. The message \<open>Who are you? Tell me more about Patrick\<close> gets
  the self-identification, and no completion is requested for it.
\<close>

theorem rule_priority:
  "(noFaults w \<longrightarrow>
      (toLowerCase (unicodeLower w) (trim (msg_body m)) = ''hi''
         \<longrightarrow> fst (onMessage openai m w) = Inr greetingReply)
    \<and> (toLowerCase (unicodeLower w) (trim (msg_body m)) \<noteq> ''hi''
          \<and> includesStr (toLowerCase (unicodeLower w) (trim (msg_body m))) ''who are you''
         \<longrightarrow> fst (onMessage openai m w) = Inr whoAreYouReply)
    \<and> (toLowerCase (unicodeLower w) (trim (msg_body m)) \<noteq> ''hi''
          \<and> \<not> includesStr (toLowerCase (unicodeLower w) (trim (msg_body m))) ''who are you''
          \<and> includesStr (toLowerCase (unicodeLower w) (trim (msg_body m)))
                ''tell me more about patrick''
         \<longrightarrow> fst (onMessage openai m w) = Inr patrickReply))
   \<and> (\<not> noRule (unicodeLower w) (trim (msg_body m))
       \<longrightarrow> \<not> list_ex isCompletion (newEvents w (snd (onMessage openai m w))))
   \<and> (msg_body m = ''Who are you? Tell me more about Patrick''
       \<longrightarrow> \<not> list_ex isCompletion (newEvents w (snd (onMessage openai m w)))
         \<and> (noFaults w \<longrightarrow> fst (onMessage openai m w) = Inr whoAreYouReply))"
proof -
  have r: "fst (onMessage openai m w) = Inr (replyTo openai m w)" if "noFaults w"
    using that by (rule onMessage_ok)
  have quiet: "\<not> noRule (unicodeLower w) (trim (msg_body m))
      \<longrightarrow> \<not> list_ex isCompletion (newEvents w (snd (onMessage openai m w)))"
    by (simp add: rule_without_completion)
  have hit: "msg_body m = ''Who are you? Tell me more about Patrick''
      \<longrightarrow> replyTo openai m w = whoAreYouReply \<and> \<not> noRule (unicodeLower w) (trim (msg_body m))"
    using trim_priority by (simp add: replyTo_def noRule_def priorityMsg_def lower_priority)
  show ?thesis
    using quiet hit r by (simp add: replyTo_def)
qed

theorem rule_priority_witness:
  "noFaults emptyWorld
   \<and> fst (onMessage timeoutService priorityMsg emptyWorld) = Inr whoAreYouReply
   \<and> \<not> list_ex isCompletion
        (newEvents emptyWorld (snd (onMessage timeoutService priorityMsg emptyWorld)))
   \<and> fst (onMessage timeoutService hiMsg emptyWorld) = Inr greetingReply
   \<and> fst (onMessage timeoutService patrickMsg emptyWorld) = Inr patrickReply"
  using rule_priority [of emptyWorld priorityMsg timeoutService]
    rule_priority [of emptyWorld hiMsg timeoutService]
    rule_priority [of emptyWorld patrickMsg timeoutService]
    lower_hi [of "''Hi''"]
  by (simp add: noFaults_emptyWorld trim_hiMsg trim_patrick lower_patrick)
    (simp add: priorityMsg_def)

text \<open>
  Claim C6. A message whose trimmed body is \<open>hi\<close> in any of its four spellings meets the
  greeting rule: in a turn without storage failure the greeting is returned and sent to
  the transport, and no completion is requested, whatever the storage does. A message
  whose trimmed body is \<open>hiya\<close> does not meet the greeting rule, nor another: in a turn
  without storage failure a completion is requested, and the reply is what the completion
  call gives.
\<close>

theorem greeting_exact:
  "(trim (msg_body m) \<in> {''hi'', ''Hi'', ''hI'', ''HI''}
      \<longrightarrow> toLowerCase (unicodeLower w) (trim (msg_body m)) = ''hi''
        \<and> \<not> list_ex isCompletion (newEvents w (snd (onMessage openai m w)))
        \<and> (noFaults w
            \<longrightarrow> fst (onMessage openai m w) = Inr greetingReply
              \<and> MsgReply (msg_from m) greetingReply
                  \<in> set (newEvents w (snd (onMessage openai m w)))))
   \<and> (trim (msg_body m) = ''hiya''
      \<longrightarrow> toLowerCase (unicodeLower w) (trim (msg_body m)) \<noteq> ''hi''
        \<and> noRule (unicodeLower w) (trim (msg_body m))
        \<and> (noFaults w
            \<longrightarrow> fst (onMessage openai m w)
                  = Inr (fst (createCompletion openai (buildPrompt (promptContext m w)) w))
              \<and> CompletionsCreate (buildPrompt (promptContext m w))
                  \<in> set (newEvents w (snd (onMessage openai m w)))))"
proof -
  have r: "fst (onMessage openai m w) = Inr (replyTo openai m w)" if "noFaults w"
    using that by (rule onMessage_ok)
  have ev: "newEvents w (snd (onMessage openai m w)) = turnEvents openai m w" if "noFaults w"
    using that by (rule newEvents_ok)
  have hi: "toLowerCase (unicodeLower w) (trim (msg_body m)) = ''hi''
      \<and> \<not> list_ex isCompletion (newEvents w (snd (onMessage openai m w)))
      \<and> (noFaults w
          \<longrightarrow> fst (onMessage openai m w) = Inr greetingReply
            \<and> MsgReply (msg_from m) greetingReply
                \<in> set (newEvents w (snd (onMessage openai m w))))"
    if "trim (msg_body m) \<in> {''hi'', ''Hi'', ''hI'', ''HI''}"
  proof -
    from that have l: "toLowerCase (unicodeLower w) (trim (msg_body m)) = ''hi''"
      by (rule lower_hi)
    then have g: "replyTo openai m w = greetingReply" and n: "\<not> noRule (unicodeLower w) (trim (msg_body m))"
      by (simp_all add: replyTo_def noRule_def)
    have "MsgReply (msg_from m) greetingReply \<in> set (turnEvents openai m w)"
      by (simp add: turnEvents_def g)
    with l g n show ?thesis
      using r ev by (simp add: rule_without_completion)
  qed
  have hiya: "toLowerCase (unicodeLower w) (trim (msg_body m)) \<noteq> ''hi''
      \<and> noRule (unicodeLower w) (trim (msg_body m))
      \<and> (noFaults w
          \<longrightarrow> fst (onMessage openai m w)
                = Inr (fst (createCompletion openai (buildPrompt (promptContext m w)) w))
            \<and> CompletionsCreate (buildPrompt (promptContext m w))
                \<in> set (newEvents w (snd (onMessage openai m w))))"
    if "trim (msg_body m) = ''hiya''"
  proof -
    from that have n: "noRule (unicodeLower w) (trim (msg_body m))"
      by (simp add: noRule_hiya)
    then have c: "replyTo openai m w = completionReply (openai (buildPrompt (promptContext m w)))"
      by (simp add: replyTo_def noRule_def)
    from n have "CompletionsCreate (buildPrompt (promptContext m w))
        \<in> set (turnEvents openai m w)"
      by (simp add: turnEvents_def)
    with n c show ?thesis
      using r ev by (simp add: createCompletion_eq noRule_def)
  qed
  from hi hiya show ?thesis
    by blast
qed

theorem greeting_exact_witness:
  "noFaults emptyWorld
   \<and> trim (msg_body hiMsg) \<in> {''hi'', ''Hi'', ''hI'', ''HI''}
   \<and> fst (onMessage timeoutService hiMsg emptyWorld) = Inr greetingReply
   \<and> trim (msg_body hiyaMsg) = ''hiya''
   \<and> fst (onMessage timeoutService hiyaMsg emptyWorld) = Inr fallbackReply"
  using greeting_exact [of hiMsg emptyWorld timeoutService]
    greeting_exact [of hiyaMsg emptyWorld timeoutService]
  by (simp add: noFaults_emptyWorld trim_hiMsg trim_hiya createCompletion_eq
      completionReply_def timeoutService_def)

section \<open>The completion gateway\<close>

text \<open>
  Claim C3. In a turn without storage failure whose message meets no rule (its lowercase
  taken with the case tables of the runtime), when the completion call fails (the request
  rejects, or the response has no content), the handler still returns a reply, the fixed
  fallback string; the sender's record then ends with the Human turn followed by a Bot
  turn holding the fallback, and the fallback is sent to the transport.
\<close>

theorem gateway_failure_fallback:
  assumes "noFaults w" and "noRule (unicodeLower w) (trim (msg_body m))"
    and "\<forall>t. openai (buildPrompt (promptContext m w)) \<noteq> Content t"
  shows "fst (onMessage openai m w) = Inr fallbackReply
    \<and> (\<exists>t1 t2. historyOf (msg_from m) (snd (onMessage openai m w))
          = historyOf (msg_from m) w
            @ [\<lparr>message = trim (msg_body m), role = Human, timestamp = t1\<rparr>,
               \<lparr>message = fallbackReply, role = Bot, timestamp = t2\<rparr>])
    \<and> MsgReply (msg_from m) fallbackReply \<in> set (newEvents w (snd (onMessage openai m w)))
    \<and> fallbackReply = ''Oops, something went wrong there! But hey, I'm still awesome, right? ''
        @ [CHR 0xF0, CHR 0x9F, CHR 0x98, CHR 0x8E]"
proof -
  from assms(3) have "completionReply (openai (buildPrompt (promptContext m w))) = fallbackReply"
    by (cases "openai (buildPrompt (promptContext m w))") (simp_all add: completionReply_def)
  with assms(2) have reply: "replyTo openai m w = fallbackReply"
    by (simp add: replyTo_def noRule_def)
  have r: "fst (onMessage openai m w) = Inr fallbackReply"
    using onMessage_ok(1) [OF assms(1), of openai m] by (simp add: reply)
  have ev: "newEvents w (snd (onMessage openai m w)) = turnEvents openai m w"
    using assms(1) by (rule newEvents_ok)
  have "historyOf (msg_from m) (snd (onMessage openai m w))
      = historyOf (msg_from m) w
        @ [\<lparr>message = trim (msg_body m), role = Human, timestamp = timestamp (humanTurn m w)\<rparr>,
           \<lparr>message = fallbackReply, role = Bot, timestamp = timestamp (botTurn openai m w)\<rparr>]"
    by (simp add: historyOf_onMessage [OF assms(1)] humanTurn_def botTurn_def reply)
  then have h: "\<exists>t1 t2. historyOf (msg_from m) (snd (onMessage openai m w))
      = historyOf (msg_from m) w
        @ [\<lparr>message = trim (msg_body m), role = Human, timestamp = t1\<rparr>,
           \<lparr>message = fallbackReply, role = Bot, timestamp = t2\<rparr>]"
    by blast
  have sent: "MsgReply (msg_from m) fallbackReply \<in> set (newEvents w (snd (onMessage openai m w)))"
    by (simp add: ev turnEvents_def reply)
  have exact: "fallbackReply = ''Oops, something went wrong there! But hey, I'm still awesome, right? ''
      @ [CHR 0xF0, CHR 0x9F, CHR 0x98, CHR 0x8E]"
    by (simp add: fallbackReply_def)
  show ?thesis
    by (rule conjI [OF r conjI [OF h conjI [OF sent exact]]])
qed

theorem gateway_failure_fallback_witness:
  "noFaults emptyWorld \<and> noRule (unicodeLower emptyWorld) (trim (msg_body hiyaMsg))
   \<and> (\<forall>t. timeoutService (buildPrompt (promptContext hiyaMsg emptyWorld)) \<noteq> Content t)
   \<and> fst (onMessage timeoutService hiyaMsg emptyWorld) = Inr fallbackReply
   \<and> map (\<lambda>t. (role t, message t))
        (historyOf ''a'' (snd (onMessage timeoutService hiyaMsg emptyWorld)))
       = [(Human, ''hiya''), (Bot, fallbackReply)]"
proof -
  have hyp: "noRule (unicodeLower emptyWorld) (trim (msg_body hiyaMsg))"
    "\<forall>t. timeoutService (buildPrompt (promptContext hiyaMsg emptyWorld)) \<noteq> Content t"
    by (simp_all add: trim_hiya noRule_hiya timeoutService_def)
  note fallback = gateway_failure_fallback [of emptyWorld hiyaMsg timeoutService,
      OF noFaults_emptyWorld hyp]
  from fallback obtain t1 t2 where
    "historyOf (msg_from hiyaMsg) (snd (onMessage timeoutService hiyaMsg emptyWorld))
      = historyOf (msg_from hiyaMsg) emptyWorld
        @ [\<lparr>message = trim (msg_body hiyaMsg), role = Human, timestamp = t1\<rparr>,
           \<lparr>message = fallbackReply, role = Bot, timestamp = t2\<rparr>]"
    by blast
  then have "map (\<lambda>t. (role t, message t))
      (historyOf ''a'' (snd (onMessage timeoutService hiyaMsg emptyWorld)))
      = [(Human, ''hiya''), (Bot, fallbackReply)]"
    using trim_hiya by (simp add: hiyaMsg_def historyOf_def emptyWorld_def)
  with fallback hyp noFaults_emptyWorld show ?thesis
    by simp
qed

lemma join_last_two: "\<exists>pre. join sep (xs @ [a, b]) = pre @ a @ sep @ b"
proof (induction xs)
  case Nil
  show ?case by simp
next
  case (Cons x xs)
  then obtain pre where pre: "join sep (xs @ [a, b]) = pre @ a @ sep @ b"
    by blast
  obtain y ys where ys: "xs @ [a, b] = y # ys"
    by (cases "xs @ [a, b]") simp_all
  have "join sep ((x # xs) @ [a, b]) = x @ sep @ join sep (xs @ [a, b])"
    by (simp add: ys)
  then have "join sep ((x # xs) @ [a, b]) = (x @ sep @ pre) @ a @ sep @ b"
    by (simp add: pre)
  then show ?case
    by blast
qed

lemma slice_last_snoc: "\<exists>older. slice (- 20) (xs @ [x]) = older @ [x]"
proof -
  have "slice (- 20) (xs @ [x]) = drop (length xs - 19) (xs @ [x])"
    using slice_last [of 20 "xs @ [x]"] by simp
  also have "\<dots> = drop (length xs - 19) xs @ [x]"
    by simp
  finally show ?thesis
    by blast
qed

lemma around_twice: "p = a @ h @ s @ h @ b \<Longrightarrow> \<exists>pre post. p = pre @ h @ s @ h @ post"
  by blast

lemma prompt_shape:
  assumes ctx: "promptContext m w = older @ [h, h]"
  shows "\<exists>pre post. buildPrompt (promptContext m w) = pre @ h @ ''\<newline>'' @ h @ post"
proof -
  obtain pre where j: "join ''\<newline>'' (older @ [h, h]) = pre @ h @ ''\<newline>'' @ h"
    using join_last_two by blast
  have "buildPrompt (promptContext m w)
      = (''\<newline>    Here's the conversation history:\<newline>    '' @ pre) @ h @ ''\<newline>'' @ h
        @ (''\<newline>\<newline>    Respond to the last message. Be fun, sarcastic, and engaging in your response.''
           @ ''\<newline>    Keep it concise (1-2 sentences max).''
           @ ''\<newline>    Avoid big words, use simple, everyday English.'')"
    by (simp add: buildPrompt_def ctx j)
  then show ?thesis
    by (rule around_twice)
qed

text \<open>
  Claim C10. Whatever the storage does, a completion is requested in a turn only when no
  rule applies, and its prompt is then built from a context whose last two entries are
  both the latest human message: the one read back from the store, where the Human turn
  was appended before the read, and the one pushed onto the context afterwards. In the
  prompt the two stand on consecutive lines. Without storage failure and without a rule
  that applies, the request is made. Whether a rule applies is decided on the lowercase
  that the case tables of the runtime give to the message.
\<close>

theorem latest_message_twice:
  "(CompletionsCreate p \<in> set (newEvents w (snd (onMessage openai m w)))
      \<longrightarrow> noRule (unicodeLower w) (trim (msg_body m)) \<and> p = buildPrompt (promptContext m w))
   \<and> (noFaults w \<and> noRule (unicodeLower w) (trim (msg_body m))
      \<longrightarrow> CompletionsCreate (buildPrompt (promptContext m w))
           \<in> set (newEvents w (snd (onMessage openai m w))))
   \<and> (\<exists>older. promptContext m w
          = older @ [''Human: '' @ trim (msg_body m), ''Human: '' @ trim (msg_body m)])
   \<and> 2 \<le> count_list (promptContext m w) (''Human: '' @ trim (msg_body m))
   \<and> (\<exists>pre post. buildPrompt (promptContext m w)
          = pre @ (''Human: '' @ trim (msg_body m)) @ ''\<newline>''
              @ (''Human: '' @ trim (msg_body m)) @ post)"
proof -
  let ?h = "''Human: '' @ trim (msg_body m)"
  have only: "CompletionsCreate p \<in> set (newEvents w (snd (onMessage openai m w)))
      \<longrightarrow> noRule (unicodeLower w) (trim (msg_body m)) \<and> p = buildPrompt (promptContext m w)"
    using onMessage_completion by blast
  have sent: "noFaults w \<and> noRule (unicodeLower w) (trim (msg_body m))
      \<longrightarrow> CompletionsCreate (buildPrompt (promptContext m w))
           \<in> set (newEvents w (snd (onMessage openai m w)))"
    by (simp add: newEvents_ok turnEvents_def)
  obtain older where "slice (- 20) (historyOf (msg_from m) w @ [humanTurn m w])
      = older @ [humanTurn m w]"
    using slice_last_snoc [of "historyOf (msg_from m) w" "humanTurn m w"] ..
  then have ctx: "promptContext m w = map entry older @ [?h, ?h]"
    by (simp add: promptContext_def entry_def humanTurn_def roleName_def)
  have twice: "2 \<le> count_list (promptContext m w) ?h"
    unfolding ctx by (simp only: count_list_append count_list.simps) simp
  have p: "\<exists>pre post. buildPrompt (promptContext m w) = pre @ ?h @ ''\<newline>'' @ ?h @ post"
    using ctx by (rule prompt_shape)
  have e: "\<exists>older. promptContext m w = older @ [?h, ?h]"
    by (intro exI) (rule ctx)
  show ?thesis
    by (rule conjI [OF only conjI [OF sent conjI [OF e conjI [OF twice p]]]])
qed

theorem latest_message_twice_witness:
  "noFaults emptyWorld \<and> noRule (unicodeLower emptyWorld) (trim (msg_body hiyaMsg))
   \<and> promptContext hiyaMsg emptyWorld = [''Human: hiya'', ''Human: hiya'']
   \<and> 2 \<le> count_list (promptContext hiyaMsg emptyWorld) (''Human: '' @ trim (msg_body hiyaMsg))
   \<and> CompletionsCreate (buildPrompt (promptContext hiyaMsg emptyWorld))
       \<in> set (newEvents emptyWorld (snd (onMessage timeoutService hiyaMsg emptyWorld)))
   \<and> CompletionsCreate (buildPrompt (promptContext hiyaMsg emptyWorld))
       \<in> set (newEvents lateFailingWorld (snd (onMessage timeoutService hiyaMsg lateFailingWorld)))"
proof -
  note twice = latest_message_twice [of "buildPrompt (promptContext hiyaMsg emptyWorld)"
      emptyWorld timeoutService hiyaMsg]
  have ctx: "promptContext hiyaMsg emptyWorld = [''Human: hiya'', ''Human: hiya'']"
    "promptContext hiyaMsg lateFailingWorld = promptContext hiyaMsg emptyWorld"
    using trim_hiya
    by (simp_all add: emptyWorld_def lateFailingWorld_def promptContext_def historyOf_def
        humanTurn_def slice_def entry_def roleName_def hiyaMsg_def)
  have hyp: "noRule (unicodeLower emptyWorld) (trim (msg_body hiyaMsg))"
    by (simp add: trim_hiya noRule_hiya)
  from twice hyp noFaults_emptyWorld
  have sent: "CompletionsCreate (buildPrompt (promptContext hiyaMsg emptyWorld))
      \<in> set (newEvents emptyWorld (snd (onMessage timeoutService hiyaMsg emptyWorld)))"
    and count: "2 \<le> count_list (promptContext hiyaMsg emptyWorld)
      (''Human: '' @ trim (msg_body hiyaMsg))"
    by simp_all
  have "list_ex isCompletion
      (newEvents lateFailingWorld (snd (onMessage timeoutService hiyaMsg lateFailingWorld)))"
    using late_failing_run(3) by (simp add: newEvents_def lateFailingWorld_def emptyWorld_def)
  then obtain q where q: "CompletionsCreate q
      \<in> set (newEvents lateFailingWorld (snd (onMessage timeoutService hiyaMsg lateFailingWorld)))"
    by (auto simp add: list_ex_iff isCompletion_iff)
  with latest_message_twice [of q lateFailingWorld timeoutService hiyaMsg]
  have "q = buildPrompt (promptContext hiyaMsg lateFailingWorld)"
    by simp
  with q ctx(2) have "CompletionsCreate (buildPrompt (promptContext hiyaMsg emptyWorld))
      \<in> set (newEvents lateFailingWorld (snd (onMessage timeoutService hiyaMsg lateFailingWorld)))"
    by simp
  with sent count ctx(1) hyp noFaults_emptyWorld show ?thesis
    by simp
qed

section \<open>The order of the steps\<close>

text \<open>
  Claim C1, as the code has it. In a turn without storage failure the calls other than
  those to the logger are, in this order: the append of the Human turn, the lookup of the
  profile, its insertion when the lookup found none, the read of the history, the
  completion request when no rule applies, the append of the Bot turn with the reply the
  handler returns, and the reply to the transport. The history is read on every path,
  before the rules are tried, and the Human turn is appended before the profile is
  loaded. Whether a rule applies is decided on the lowercase that the case tables of the
  runtime give to the message: with tables that lower the Kelvin sign to \<open>k\<close>, a
  message that ends in \<open>Patric\<close> and the Kelvin sign meets the last rule, and no
  completion is requested for it.
\<close>

theorem turn_steps_in_order:
  assumes "noFaults w"
  shows "\<exists>r. fst (onMessage openai m w) = Inr r
    \<and> filter (\<lambda>ev. \<not> isLog ev) (newEvents w (snd (onMessage openai m w))) =
        [ConversationsUpdateOne (msg_from m) Human (trim (msg_body m)),
         UsersFindOne (msg_from m)]
        @ (case find (\<lambda>u. sender u = msg_from m) (usersCollection w) of
             None \<Rightarrow> [UsersInsertOne (msg_from m)]
           | Some u \<Rightarrow> [])
        @ [ConversationsFindOne (msg_from m)]
        @ (if noRule (unicodeLower w) (trim (msg_body m))
           then [CompletionsCreate (buildPrompt (promptContext m w))] else [])
        @ [ConversationsUpdateOne (msg_from m) Bot r, MsgReply (msg_from m) r]"
proof -
  have r: "fst (onMessage openai m w) = Inr (replyTo openai m w)"
    using assms by (rule onMessage_ok)
  have ev: "newEvents w (snd (onMessage openai m w)) = turnEvents openai m w"
    using assms by (rule newEvents_ok)
  have "filter (\<lambda>ev. \<not> isLog ev) (completionLog c) = []" for c
    by (cases c) (simp_all add: completionLog_def)
  then show ?thesis
    by (simp add: r ev turnEvents_def split: option.splits)
qed

theorem turn_steps_in_order_witness:
  "noFaults emptyWorld
   \<and> filter (\<lambda>ev. \<not> isLog ev)
       (newEvents emptyWorld (snd (onMessage timeoutService hiMsg emptyWorld))) =
       [ConversationsUpdateOne ''a'' Human ''Hi'', UsersFindOne ''a'', UsersInsertOne ''a'',
        ConversationsFindOne ''a'', ConversationsUpdateOne ''a'' Bot greetingReply,
        MsgReply ''a'' greetingReply]
   \<and> noFaults kelvinWorld
   \<and> filter (\<lambda>ev. \<not> isLog ev)
       (newEvents kelvinWorld (snd (onMessage timeoutService kelvinMsg kelvinWorld))) =
       [ConversationsUpdateOne ''a'' Human (msg_body kelvinMsg), UsersFindOne ''a'',
        UsersInsertOne ''a'', ConversationsFindOne ''a'',
        ConversationsUpdateOne ''a'' Bot patrickReply, MsgReply ''a'' patrickReply]"
proof -
  have hi: "filter (\<lambda>ev. \<not> isLog ev)
       (newEvents emptyWorld (snd (onMessage timeoutService hiMsg emptyWorld))) =
       [ConversationsUpdateOne ''a'' Human ''Hi'', UsersFindOne ''a'', UsersInsertOne ''a'',
        ConversationsFindOne ''a'', ConversationsUpdateOne ''a'' Bot greetingReply,
        MsgReply ''a'' greetingReply]"
    using turn_steps_in_order [of emptyWorld timeoutService hiMsg]
      lower_hi [of "''Hi''"]
    by (simp add: trim_hiMsg noRule_def onMessage_ok replyTo_def)
      (simp add: emptyWorld_def noFaults_def hiMsg_def)
  have kelvin: "filter (\<lambda>ev. \<not> isLog ev)
       (newEvents kelvinWorld (snd (onMessage timeoutService kelvinMsg kelvinWorld))) =
       [ConversationsUpdateOne ''a'' Human (msg_body kelvinMsg), UsersFindOne ''a'',
        UsersInsertOne ''a'', ConversationsFindOne ''a'',
        ConversationsUpdateOne ''a'' Bot patrickReply, MsgReply ''a'' patrickReply]"
    using turn_steps_in_order [OF noFaults_kelvinWorld, of timeoutService kelvinMsg]
      kelvin_rule(1)
    by (simp add: onMessage_ok(1) [OF noFaults_kelvinWorld] kelvin_rule(2) trim_kelvin)
      (simp add: kelvinWorld_def emptyWorld_def kelvinMsg_def)
  show ?thesis
    by (rule conjI [OF noFaults_emptyWorld conjI [OF hi conjI [OF noFaults_kelvinWorld kelvin]]])
qed

text \<open>
  Claim C1, as stated, fails on the greeting of a new sender: the message meets a rule and
  the history is read all the same, and the profile is looked up after the Human turn was
  appended, not before.
\<close>

theorem spec_order_counterexample:
  "\<not> noRule (unicodeLower emptyWorld) (trim (msg_body hiMsg))
   \<and> ConversationsFindOne ''a''
       \<in> set (newEvents emptyWorld (snd (onMessage timeoutService hiMsg emptyWorld)))
   \<and> \<not> before (UsersFindOne ''a'') (ConversationsUpdateOne ''a'' Human ''Hi'')
         (newEvents emptyWorld (snd (onMessage timeoutService hiMsg emptyWorld)))
   \<and> before (ConversationsUpdateOne ''a'' Human ''Hi'') (UsersFindOne ''a'')
         (newEvents emptyWorld (snd (onMessage timeoutService hiMsg emptyWorld)))"
proof -
  have nf: "noFaults emptyWorld"
    by (simp add: emptyWorld_def noFaults_def)
  have l: "toLowerCase unicode ''Hi'' = ''hi''" for unicode
    by (simp add: toLowerCase_def isAscii_def lowerChar_def)
  have "newEvents emptyWorld (snd (onMessage timeoutService hiMsg emptyWorld))
      = turnEvents timeoutService hiMsg emptyWorld"
    using nf by (rule newEvents_ok)
  moreover have "turnEvents timeoutService hiMsg emptyWorld =
      [LogInfo ''Received message from a: Hi'', ConversationsUpdateOne ''a'' Human ''Hi'',
       UsersFindOne ''a'', UsersInsertOne ''a'', ConversationsFindOne ''a'',
       ConversationsUpdateOne ''a'' Bot greetingReply, MsgReply ''a'' greetingReply,
       LogInfo (''Sent response to a: '' @ greetingReply)]"
    by (simp add: turnEvents_def trim_hiMsg noRule_def replyTo_def l)
      (simp add: hiMsg_def emptyWorld_def)
  ultimately show ?thesis
    by (simp add: before_def trim_hiMsg noRule_def l)
qed

section \<open>The conversation record\<close>

text \<open>
  Claim C5. When the messages of one sender are handled one after the other and no
  storage call fails, every message is answered, and the sender's record afterwards is
  the record before followed by, for each message in the order sent, a Human turn with
  the trimmed message and a Bot turn with its reply: 2N turns more than before, so exactly
  2N for a sender without earlier turns.
\<close>

theorem two_turns_per_message:
  assumes "noFaults w" and "\<forall>d \<in> set ds. msg_from (snd d) = s"
  shows "\<exists>replies. fst (deliver ds w) = Inr replies \<and> length replies = length ds
    \<and> prefix (historyOf s w) (historyOf s (snd (deliver ds w)))
    \<and> map (\<lambda>t. (role t, message t))
          (drop (length (historyOf s w)) (historyOf s (snd (deliver ds w))))
        = concat (map2 (\<lambda>d r. [(Human, trim (msg_body (snd d))), (Bot, r)]) ds replies)
    \<and> length (historyOf s (snd (deliver ds w))) = length (historyOf s w) + 2 * length ds"
  using assms
proof (induction ds arbitrary: w)
  case Nil
  show ?case by simp
next
  case (Cons d ds)
  let ?w1 = "snd (onMessage (fst d) (snd d) w)"
  let ?r = "replyTo (fst d) (snd d) w"
  let ?p = "\<lambda>t. (role t, message t)"
  have s: "msg_from (snd d) = s"
    using Cons.prems(2) by simp
  have nf1: "noFaults ?w1" and first: "fst (onMessage (fst d) (snd d) w) = Inr ?r"
    using onMessage_ok [OF Cons.prems(1)] by simp_all
  have h1: "historyOf s ?w1
      = historyOf s w @ [humanTurn (snd d) w, botTurn (fst d) (snd d) w]"
    using historyOf_onMessage [OF Cons.prems(1), of "snd d" "fst d"] by (simp add: s)
  from Cons.IH [OF nf1] Cons.prems(2) obtain rs where
    rest: "fst (deliver ds ?w1) = Inr rs" and len: "length rs = length ds"
    and p2: "prefix (historyOf s ?w1) (historyOf s (snd (deliver ds ?w1)))"
    and h2: "map ?p (drop (length (historyOf s ?w1)) (historyOf s (snd (deliver ds ?w1))))
      = concat (map2 (\<lambda>d r. [(Human, trim (msg_body (snd d))), (Bot, r)]) ds rs)"
    and l2: "length (historyOf s (snd (deliver ds ?w1))) = length (historyOf s ?w1) + 2 * length ds"
    by auto
  from p2 obtain zs where all: "historyOf s (snd (deliver ds ?w1)) = historyOf s ?w1 @ zs"
    by (auto simp add: prefix_def)
  have run: "deliver (d # ds) w = (Inr (?r # rs), snd (deliver ds ?w1))"
    by (simp add: await_fst [OF first] await_fst [OF rest])
  have l: "length (historyOf s (snd (deliver (d # ds) w)))
      = length (historyOf s w) + 2 * length (d # ds)"
    unfolding run using l2 by (simp add: h1)
  have p: "prefix (historyOf s w) (historyOf s (snd (deliver (d # ds) w)))"
    unfolding run by (simp add: all h1)
  have h: "map ?p (drop (length (historyOf s w)) (historyOf s (snd (deliver (d # ds) w))))
      = concat (map2 (\<lambda>d r. [(Human, trim (msg_body (snd d))), (Bot, r)]) (d # ds) (?r # rs))"
    unfolding run using h2 by (simp add: all h1 humanTurn_def botTurn_def)
  have "fst (deliver (d # ds) w) = Inr (?r # rs)" and "length (?r # rs) = length (d # ds)"
    unfolding run by (simp_all add: len)
  with p h l show ?case
    by (intro exI conjI)
qed

theorem two_turns_per_message_witness:
  "noFaults emptyWorld \<and> map (\<lambda>d. msg_from (snd d)) twoDeliveries = [''a'', ''a'']
   \<and> length (historyOf ''a'' (snd (deliver twoDeliveries emptyWorld))) = 4
   \<and> map role (historyOf ''a'' (snd (deliver twoDeliveries emptyWorld)))
       = [Human, Bot, Human, Bot]"
proof -
  let ?h = "historyOf ''a'' (snd (deliver twoDeliveries emptyWorld))"
  have senders: "\<forall>d \<in> set twoDeliveries. msg_from (snd d) = ''a''"
    by (simp add: twoDeliveries_def hiMsg_def hiyaMsg_def)
  have empty: "historyOf ''a'' emptyWorld = []"
    by (simp add: historyOf_def emptyWorld_def)
  from two_turns_per_message [OF noFaults_emptyWorld senders]
  obtain replies where len: "length replies = length twoDeliveries"
    and h: "map (\<lambda>t. (role t, message t)) (drop (length (historyOf ''a'' emptyWorld)) ?h)
      = concat (map2 (\<lambda>d r. [(Human, trim (msg_body (snd d))), (Bot, r)])
          twoDeliveries replies)"
    and l: "length ?h = length (historyOf ''a'' emptyWorld) + 2 * length twoDeliveries"
    by blast
  from len obtain r1 r2 where "replies = [r1, r2]"
    by (auto simp add: twoDeliveries_def length_Suc_conv)
  with h have "map fst (map (\<lambda>t. (role t, message t)) ?h) = [Human, Bot, Human, Bot]"
    by (simp add: empty twoDeliveries_def)
  then have roles: "map role ?h = [Human, Bot, Human, Bot]"
    by (simp add: comp_def)
  from l have four: "length ?h = 4"
    by (simp add: empty twoDeliveries_def)
  have "map (\<lambda>d. msg_from (snd d)) twoDeliveries = [''a'', ''a'']"
    by (simp add: twoDeliveries_def hiMsg_def hiyaMsg_def)
  with roles four noFaults_emptyWorld show ?thesis
    by simp
qed

section \<open>Creation of profiles and records\<close>

lemma pushHistory_absent:
  "find (\<lambda>c. sender c = s) cs = None \<Longrightarrow> pushHistory s t cs = cs @ [\<lparr>sender = s, history = [t]\<rparr>]"
  by (induction cs) (auto split: if_splits)

lemma pushHistory_append:
  "find (\<lambda>c. sender c = s) cs = None \<Longrightarrow> pushHistory s t (cs @ ds) = cs @ pushHistory s t ds"
  by (induction cs) (auto split: if_splits)

lemma find_append_eq:
  "find P (xs @ ys) = (case find P xs of None \<Rightarrow> find P ys | Some x \<Rightarrow> Some x)"
  by (induction xs) simp_all

lemma pushHistory_senders:
  "find (\<lambda>c. sender c = s) cs \<noteq> None \<Longrightarrow> map sender (pushHistory s t cs) = map sender cs"
  by (induction cs) auto


text \<open>
  Claim C7. Without storage failure, \<^verbatim>\<open>getUserProfile\<close> inserts a profile with empty
  preferences and no favourite responses and returns it when \<^verbatim>\<open>findOne\<close> yields none
  for the sender, and returns the profile found, inserting nothing, otherwise; it never
  touches the conversations. The first message of a sender with neither profile nor record
  adds exactly one profile and exactly one record, which holds the Human and the Bot turn;
  a further message of the same sender adds no profile and no record.
\<close>

theorem profile_and_record_created_once:
  assumes "noFaults w"
  shows "(find (\<lambda>u. sender u = s) (usersCollection w) = None
       \<longrightarrow> fst (getUserProfile s w)
             = Inr \<lparr>sender = s, preferences = [], favoriteResponses = [],
                    conversationHistory = []\<rparr>
         \<and> usersCollection (snd (getUserProfile s w))
             = usersCollection w @ [\<lparr>sender = s, preferences = [], favoriteResponses = [],
                    conversationHistory = []\<rparr>])
    \<and> (\<forall>u. find (\<lambda>u. sender u = s) (usersCollection w) = Some u
       \<longrightarrow> fst (getUserProfile s w) = Inr u
         \<and> usersCollection (snd (getUserProfile s w)) = usersCollection w)
    \<and> conversationsCollection (snd (getUserProfile s w)) = conversationsCollection w
    \<and> (find (\<lambda>u. sender u = msg_from m) (usersCollection w) = None
        \<and> find (\<lambda>c. sender c = msg_from m) (conversationsCollection w) = None
       \<longrightarrow> (\<exists>r t1 t2. fst (onMessage openai m w) = Inr r
         \<and> usersCollection (snd (onMessage openai m w))
             = usersCollection w @ [\<lparr>sender = msg_from m, preferences = [],
                    favoriteResponses = [], conversationHistory = []\<rparr>]
         \<and> conversationsCollection (snd (onMessage openai m w))
             = conversationsCollection w
               @ [\<lparr>sender = msg_from m,
                   history = [\<lparr>message = trim (msg_body m), role = Human, timestamp = t1\<rparr>,
                              \<lparr>message = r, role = Bot, timestamp = t2\<rparr>]\<rparr>]))
    \<and> (msg_from m' = msg_from m
       \<longrightarrow> usersCollection (snd (onMessage openai' m' (snd (onMessage openai m w))))
             = usersCollection (snd (onMessage openai m w))
         \<and> map sender (conversationsCollection
               (snd (onMessage openai' m' (snd (onMessage openai m w)))))
             = map sender (conversationsCollection (snd (onMessage openai m w))))"
proof -
  let ?w1 = "snd (onMessage openai m w)"
  let ?w2 = "snd (onMessage openai' m' ?w1)"
  let ?new = "\<lambda>s. \<lparr>sender = s, preferences = [], favoriteResponses = [],
      conversationHistory = []\<rparr>"
  note first = onMessage_ok [OF assms, of openai m]
  note second = onMessage_ok [OF first(5), of openai' m']
  have profile: "fst (getUserProfile s w)
      = Inr (case find (\<lambda>u. sender u = s) (usersCollection w) of None \<Rightarrow> ?new s | Some u \<Rightarrow> u)"
    "usersCollection (snd (getUserProfile s w))
      = (case find (\<lambda>u. sender u = s) (usersCollection w) of
           None \<Rightarrow> usersCollection w @ [?new s] | Some u \<Rightarrow> usersCollection w)"
    "conversationsCollection (snd (getUserProfile s w)) = conversationsCollection w"
    using assms by (simp_all add: getUserProfile_ok split: option.splits)
  have fresh: "\<exists>r t1 t2. fst (onMessage openai m w) = Inr r
      \<and> usersCollection ?w1 = usersCollection w @ [?new (msg_from m)]
      \<and> conversationsCollection ?w1
          = conversationsCollection w
            @ [\<lparr>sender = msg_from m,
                history = [\<lparr>message = trim (msg_body m), role = Human, timestamp = t1\<rparr>,
                           \<lparr>message = r, role = Bot, timestamp = t2\<rparr>]\<rparr>]"
    if "find (\<lambda>u. sender u = msg_from m) (usersCollection w) = None"
      and "find (\<lambda>c. sender c = msg_from m) (conversationsCollection w) = None"
    using that
    by (intro exI [where x = "replyTo openai m w"]
        exI [where x = "timestamp (humanTurn m w)"]
        exI [where x = "timestamp (botTurn openai m w)"])
      (simp add: first pushHistory_absent pushHistory_append humanTurn_def botTurn_def)
  have again: "usersCollection ?w2 = usersCollection ?w1
      \<and> map sender (conversationsCollection ?w2) = map sender (conversationsCollection ?w1)"
    if same: "msg_from m' = msg_from m"
  proof -
    have "find (\<lambda>u. sender u = msg_from m) (usersCollection ?w1) \<noteq> None"
      by (simp add: first(2) find_append_eq split: option.splits)
    then have users: "usersCollection ?w2 = usersCollection ?w1"
      by (auto simp add: second(2) same)
    have known: "find (\<lambda>c. sender c = msg_from m) (conversationsCollection ?w1) \<noteq> None"
      by (simp add: first(3) find_pushHistory)
    then have "find (\<lambda>c. sender c = msg_from m)
        (pushHistory (msg_from m) (humanTurn m' ?w1) (conversationsCollection ?w1)) \<noteq> None"
      by (simp add: find_pushHistory)
    with known have "map sender (conversationsCollection ?w2)
        = map sender (conversationsCollection ?w1)"
      by (simp add: second(3) same pushHistory_senders)
    with users show ?thesis
      by simp
  qed
  from profile fresh again show ?thesis
    by simp
qed


theorem profile_and_record_created_once_witness:
  "noFaults emptyWorld
   \<and> find (\<lambda>u. sender u = msg_from hiMsg) (usersCollection emptyWorld) = None
   \<and> find (\<lambda>c. sender c = msg_from hiMsg) (conversationsCollection emptyWorld) = None
   \<and> msg_from hiyaMsg = msg_from hiMsg
   \<and> fst (getUserProfile ''a'' emptyWorld)
       = Inr \<lparr>sender = ''a'', preferences = [], favoriteResponses = [], conversationHistory = []\<rparr>
   \<and> length (usersCollection (snd (onMessage timeoutService hiMsg emptyWorld))) = 1
   \<and> find (\<lambda>u. sender u = ''a'')
         (usersCollection (snd (onMessage timeoutService hiMsg emptyWorld)))
       = Some \<lparr>sender = ''a'', preferences = [], favoriteResponses = [], conversationHistory = []\<rparr>
   \<and> fst (getUserProfile ''a'' (snd (onMessage timeoutService hiMsg emptyWorld)))
       = Inr \<lparr>sender = ''a'', preferences = [], favoriteResponses = [], conversationHistory = []\<rparr>
   \<and> usersCollection (snd (getUserProfile ''a'' (snd (onMessage timeoutService hiMsg emptyWorld))))
       = usersCollection (snd (onMessage timeoutService hiMsg emptyWorld))
   \<and> length (conversationsCollection (snd (onMessage timeoutService hiMsg emptyWorld))) = 1
   \<and> length (usersCollection (snd (onMessage timeoutService hiyaMsg
         (snd (onMessage timeoutService hiMsg emptyWorld))))) = 1
   \<and> length (conversationsCollection (snd (onMessage timeoutService hiyaMsg
         (snd (onMessage timeoutService hiMsg emptyWorld))))) = 1"
proof -
  let ?w1 = "snd (onMessage timeoutService hiMsg emptyWorld)"
  let ?w2 = "snd (onMessage timeoutService hiyaMsg ?w1)"
  have none: "find (\<lambda>u. sender u = msg_from hiMsg) (usersCollection emptyWorld) = None"
    "find (\<lambda>c. sender c = msg_from hiMsg) (conversationsCollection emptyWorld) = None"
    "find (\<lambda>u. sender u = ''a'') (usersCollection emptyWorld) = None"
    and same: "msg_from hiyaMsg = msg_from hiMsg"
    by (simp_all add: emptyWorld_def hiMsg_def hiyaMsg_def)
  note created =
    profile_and_record_created_once [OF noFaults_emptyWorld,
      of "''a''" hiMsg timeoutService hiyaMsg timeoutService]
  from created none have profile: "fst (getUserProfile ''a'' emptyWorld)
      = Inr \<lparr>sender = ''a'', preferences = [], favoriteResponses = [], conversationHistory = []\<rparr>"
    by simp
  from created none have one: "length (usersCollection ?w1) = 1"
    "length (conversationsCollection ?w1) = 1"
    by (auto simp add: emptyWorld_def)
  from created none have found: "find (\<lambda>u. sender u = ''a'') (usersCollection ?w1)
      = Some \<lparr>sender = ''a'', preferences = [], favoriteResponses = [], conversationHistory = []\<rparr>"
    by (auto simp add: emptyWorld_def hiMsg_def)
  have nf1: "noFaults ?w1"
    using noFaults_emptyWorld by (rule onMessage_ok)
  from profile_and_record_created_once [OF nf1, of "''a''" hiMsg timeoutService hiyaMsg
      timeoutService] found
  have kept: "fst (getUserProfile ''a'' ?w1)
      = Inr \<lparr>sender = ''a'', preferences = [], favoriteResponses = [], conversationHistory = []\<rparr>"
    "usersCollection (snd (getUserProfile ''a'' ?w1)) = usersCollection ?w1"
    by simp_all
  from created same have users: "usersCollection ?w2 = usersCollection ?w1"
    and senders: "map sender (conversationsCollection ?w2)
      = map sender (conversationsCollection ?w1)"
    by simp_all
  from senders have "length (conversationsCollection ?w2) = length (conversationsCollection ?w1)"
    by (rule map_eq_imp_length_eq)
  with users one profile none same noFaults_emptyWorld found kept show ?thesis
    by simp
qed

section \<open>Nothing stored is lost\<close>

lemma grown_refl: "grown c c"
  by (simp add: grown_def)

lemma grown_trans: "grown a b \<Longrightarrow> grown b c \<Longrightarrow> grown a c"
  by (auto simp add: grown_def)

lemma appendOnly_refl: "appendOnly w w"
  by (simp add: appendOnly_def list_all2_refl grown_refl)

lemma appendOnly_same:
  "usersCollection w' = usersCollection w
   \<Longrightarrow> conversationsCollection w' = conversationsCollection w \<Longrightarrow> appendOnly w w'"
  by (simp add: appendOnly_def list_all2_refl grown_refl)

lemma appendOnly_trans:
  assumes ab: "appendOnly a b" and bc: "appendOnly b c"
  shows "appendOnly a c"
proof -
  let ?A = "conversationsCollection a" and ?B = "conversationsCollection b"
    and ?C = "conversationsCollection c"
  from ab bc have len: "length ?A \<le> length ?B" "length ?B \<le> length ?C"
    by (simp_all add: appendOnly_def)
  from ab have 1: "list_all2 grown ?A (take (length ?A) ?B)"
    by (simp add: appendOnly_def)
  from bc have "list_all2 grown ?B (take (length ?B) ?C)"
    by (simp add: appendOnly_def)
  then have "list_all2 grown (take (length ?A) ?B) (take (length ?A) (take (length ?B) ?C))"
    by (rule list_all2_takeI)
  with len have 2: "list_all2 grown (take (length ?A) ?B) (take (length ?A) ?C)"
    by (simp add: min_def)
  have "list_all2 grown ?A (take (length ?A) ?C)"
    using grown_trans 1 2 by (rule list_all2_trans)
  moreover from ab bc have "prefix (usersCollection a) (usersCollection c)"
    by (auto simp add: appendOnly_def)
  ultimately show ?thesis
    using len by (simp add: appendOnly_def)
qed

lemma pushHistory_grows:
  "length cs \<le> length (pushHistory s t cs)
   \<and> list_all2 grown cs (take (length cs) (pushHistory s t cs))"
  by (induction cs) (auto simp add: grown_def list_all2_refl)

lemma await_appendOnly:
  assumes "appendOnly w (snd p)"
    and "\<And>x w1. p = (Inr x, w1) \<Longrightarrow> appendOnly w1 (snd (k x w1))"
  shows "appendOnly w (snd (await p k))"
proof (cases p)
  case (Pair r w1)
  show ?thesis
  proof (cases r)
    case (Inl e)
    with Pair assms(1) show ?thesis by simp
  next
    case (Inr x)
    with Pair assms(2) have "appendOnly w1 (snd (k x w1))"
      by simp
    with assms(1) Pair Inr show ?thesis
      by (auto intro: appendOnly_trans)
  qed
qed

lemma storageCall_appendOnly: "appendOnly w (snd (storageCall ev w))"
  by (rule appendOnly_same) (simp_all add: storageCall_keeps)

lemma usersFindOne_appendOnly: "appendOnly w (snd (usersFindOne s w))"
  unfolding usersFindOne_def
  by (rule await_appendOnly [OF storageCall_appendOnly]) (simp add: appendOnly_refl)

lemma usersInsertOne_appendOnly: "appendOnly w (snd (usersInsertOne u w))"
  unfolding usersInsertOne_def
  by (rule await_appendOnly [OF storageCall_appendOnly])
    (simp add: appendOnly_def list_all2_refl grown_refl)

lemma conversationsFindOne_appendOnly: "appendOnly w (snd (conversationsFindOne s w))"
  unfolding conversationsFindOne_def
  by (rule await_appendOnly [OF storageCall_appendOnly]) (simp add: appendOnly_refl)

lemma conversationsUpdateOne_appendOnly: "appendOnly w (snd (conversationsUpdateOne s t w))"
  unfolding conversationsUpdateOne_def
  by (rule await_appendOnly [OF storageCall_appendOnly])
    (simp add: appendOnly_def pushHistory_grows)

lemma getUserProfile_appendOnly: "appendOnly w (snd (getUserProfile s w))"
  unfolding getUserProfile_def
proof (rule await_appendOnly [OF usersFindOne_appendOnly])
  fix found w1
  show "appendOnly w1 (snd (case found of
      None \<Rightarrow> let user = \<lparr>sender = s, preferences = [], favoriteResponses = [],
                  conversationHistory = []\<rparr>
               in await (usersInsertOne user w1) (\<lambda>_ w2. (Inr user, w2))
    | Some user \<Rightarrow> (Inr user, w1)))"
  proof (cases found)
    case None
    then show ?thesis
      by (simp add: Let_def)
        (rule await_appendOnly [OF usersInsertOne_appendOnly], simp add: appendOnly_refl)
  next
    case (Some u)
    then show ?thesis
      by (simp add: appendOnly_refl)
  qed
qed

lemma updateConversationHistory_appendOnly:
  "appendOnly w (snd (updateConversationHistory s m r w))"
  by (simp add: updateConversationHistory_def conversationsUpdateOne_appendOnly)

lemma getConversationHistory_appendOnly: "appendOnly w (snd (getConversationHistory s w))"
  unfolding getConversationHistory_def
  by (rule await_appendOnly [OF conversationsFindOne_appendOnly])
    (simp add: appendOnly_refl split: option.splits)

lemma respond_appendOnly: "appendOnly w (snd (respond s r w))"
  unfolding respond_def
  by (rule await_appendOnly [OF updateConversationHistory_appendOnly])
    (simp add: appendOnly_refl)

lemma createCompletion_appendOnly: "appendOnly w (snd (createCompletion openai p w))"
  by (rule appendOnly_same) (simp_all add: createCompletion_eq)

lemma getBotResponse_appendOnly: "appendOnly w (snd (getBotResponse openai s i w))"
  unfolding getBotResponse_def
proof (rule await_appendOnly [OF getUserProfile_appendOnly],
    rule await_appendOnly [OF getConversationHistory_appendOnly])
  fix user :: user and w1 :: world and fetched :: "string list" and w2 :: world
  have "appendOnly w2 (snd (respond s (fst (createCompletion openai p w2))
      (snd (createCompletion openai p w2))))" for p
    using createCompletion_appendOnly respond_appendOnly by (rule appendOnly_trans)
  then show "appendOnly w2 (snd (let hist = fetched @ [''Human: '' @ i] in
      if toLowerCase (unicodeLower w2) i = ''hi'' then respond s greetingReply w2
      else if includesStr (toLowerCase (unicodeLower w2) i) ''who are you''
        then respond s whoAreYouReply w2
      else if includesStr (toLowerCase (unicodeLower w2) i) ''tell me more about patrick''
        then respond s patrickReply w2
      else (case createCompletion openai (buildPrompt hist) w2 of
              (response, w3) \<Rightarrow> respond s response w3)))"
    by (simp add: Let_def respond_appendOnly split_beta)
qed

lemma onMessage_appendOnly: "appendOnly w (snd (onMessage openai m w))"
proof -
  let ?w1 = "emit (LogInfo (''Received message from '' @ msg_from m @ '': ''
      @ trim (msg_body m))) w"
  have "appendOnly ?w1 (snd (await
      (updateConversationHistory (msg_from m) (trim (msg_body m)) Human ?w1)
      (\<lambda>_ w2. await (getBotResponse openai (msg_from m) (trim (msg_body m)) w2)
         (\<lambda>botResponse w3. (Inr botResponse,
            emit (LogInfo (''Sent response to '' @ msg_from m @ '': '' @ botResponse))
              (emit (MsgReply (msg_from m) botResponse) w3))))))"
    by (rule await_appendOnly [OF updateConversationHistory_appendOnly],
        rule await_appendOnly [OF getBotResponse_appendOnly])
      (simp add: appendOnly_same)
  moreover have "appendOnly w ?w1"
    by (simp add: appendOnly_same)
  ultimately have "appendOnly w (snd (await
      (updateConversationHistory (msg_from m) (trim (msg_body m)) Human ?w1)
      (\<lambda>_ w2. await (getBotResponse openai (msg_from m) (trim (msg_body m)) w2)
         (\<lambda>botResponse w3. (Inr botResponse,
            emit (LogInfo (''Sent response to '' @ msg_from m @ '': '' @ botResponse))
              (emit (MsgReply (msg_from m) botResponse) w3))))))"
    by (rule appendOnly_trans [rotated])
  then show ?thesis
    unfolding onMessage_def Let_def .
qed


lemma deliver_appendOnly: "appendOnly w (snd (deliver ds w))"
proof (induction ds arbitrary: w)
  case Nil
  show ?case by (simp add: appendOnly_refl)
next
  case (Cons d ds)
  show ?case
    unfolding deliver.simps
    by (rule await_appendOnly [OF onMessage_appendOnly], rule await_appendOnly [OF Cons.IH])
      (simp add: appendOnly_refl)
qed

lemma grown_history:
  "list_all2 grown cs ds
   \<Longrightarrow> prefix (case find (\<lambda>c. sender c = s) cs of None \<Rightarrow> [] | Some c \<Rightarrow> history c)
        (case find (\<lambda>c. sender c = s) (ds @ es) of None \<Rightarrow> [] | Some c \<Rightarrow> history c)"
  by (induction cs ds rule: list_all2_induct) (auto simp add: grown_def)

lemma appendOnly_historyOf:
  assumes "appendOnly w w'"
  shows "prefix (historyOf s w) (historyOf s w')"
proof -
  let ?n = "length (conversationsCollection w)"
  from assms have "list_all2 grown (conversationsCollection w)
      (take ?n (conversationsCollection w'))"
    by (simp add: appendOnly_def)
  then have "prefix (historyOf s w)
      (case find (\<lambda>c. sender c = s)
          (take ?n (conversationsCollection w') @ drop ?n (conversationsCollection w'))
       of None \<Rightarrow> [] | Some c \<Rightarrow> history c)"
    unfolding historyOf_def by (rule grown_history)
  then show ?thesis
    by (simp add: historyOf_def)
qed

text \<open>The relation is a real constraint: it does not hold from a stored record to none.\<close>

lemma appendOnly_strict: "\<not> appendOnly longWorld emptyWorld"
  by (simp add: appendOnly_def longWorld_def emptyWorld_def)

text \<open>
  Claim C9. Whatever the storage does, each operation of the core (the profile lookup,
  the append of a turn, the history read, the computation of a reply, the handling of a
  message, a run of deliveries) leaves every user document in place and unchanged and
  every conversation document in place, with its sender and with a history that starts
  with the history it had; no document is removed. In particular the history that
  \<^verbatim>\<open>findOne\<close> yields for a sender before is a prefix of the one it yields after.
\<close>

theorem stored_data_append_only:
  "appendOnly w (snd (getUserProfile s w))
   \<and> appendOnly w (snd (updateConversationHistory s t r w))
   \<and> appendOnly w (snd (getConversationHistory s w))
   \<and> appendOnly w (snd (getBotResponse openai s t w))
   \<and> appendOnly w (snd (onMessage openai m w))
   \<and> appendOnly w (snd (deliver ds w))
   \<and> prefix (historyOf s w) (historyOf s (snd (onMessage openai m w)))
   \<and> prefix (historyOf s w) (historyOf s (snd (deliver ds w)))"
  by (simp add: getUserProfile_appendOnly updateConversationHistory_appendOnly
      getConversationHistory_appendOnly getBotResponse_appendOnly onMessage_appendOnly
      deliver_appendOnly appendOnly_historyOf)

section \<open>Storage failures\<close>

lemma internal_not_reply: "isInternal ev \<Longrightarrow> \<not> isReply ev"
  by (cases ev) (simp_all add: isInternal_def)

lemma internal_log: "isInternal ev \<Longrightarrow> isLog ev \<Longrightarrow> isGatewayError ev"
  by (cases ev) (simp_all add: isInternal_def)

subsection \<open>Every operation accounts for its storage calls\<close>

lemma all_False: "True \<notin> set xs \<Longrightarrow> xs = replicate (length xs) False"
  by (induction xs) auto

lemma accounted_seq:
  assumes a: "accounted w (Inr x, w1)" and b: "accounted w1 p"
  shows "accounted w p"
proof -
  obtain r w2 where p: "p = (r, w2)"
    by (cases p)
  from a obtain new1 where e1: "events w1 = events w @ new1"
    by (auto simp add: accounted_def prefix_def)
  from b p obtain new2 where e2: "events w2 = events w1 @ new2"
    by (auto simp add: accounted_def prefix_def)
  let ?n1 = "length (filter isStorageCall new1)" and ?n2 = "length (filter isStorageCall new2)"
  have c1: "storageCalls w w1 = filter isStorageCall new1"
    and c2: "storageCalls w1 w2 = filter isStorageCall new2"
    and c: "storageCalls w w2 = filter isStorageCall new1 @ filter isStorageCall new2"
    by (simp_all add: storageCalls_def newEvents_def e1 e2)
  from a have f1: "faults w1 = drop ?n1 (faults w)" and ok: "True \<notin> set (take ?n1 (faults w))"
    by (simp_all add: accounted_def outcomes_def c1)
  from b p have f2: "faults w2 = drop ?n2 (faults w1)"
    by (simp add: accounted_def c2)
  have f: "faults w2 = drop (?n1 + ?n2) (faults w)"
    by (simp add: f2 f1 add.commute)
  have split: "take (?n1 + ?n2) (faults w) = take ?n1 (faults w) @ take ?n2 (faults w1)"
    by (simp add: take_add f1)
  have last: "(case r of
      Inl e \<Rightarrow> take (?n1 + ?n2) (faults w) = replicate (?n1 + ?n2 - 1) False @ [True]
    | Inr y \<Rightarrow> True \<notin> set (take (?n1 + ?n2) (faults w)))"
  proof (cases r)
    case (Inr y)
    with b p have "True \<notin> set (take ?n2 (faults w1))"
      by (simp add: accounted_def outcomes_def c2)
    with ok Inr show ?thesis
      by (simp add: split)
  next
    case (Inl e)
    with b p have t2: "take ?n2 (faults w1) = replicate (?n2 - 1) False @ [True]"
      by (simp add: accounted_def outcomes_def c2)
    then have pos: "0 < ?n2" and "faults w1 \<noteq> []"
      by (auto intro: gr0I)
    then have "?n1 < length (faults w)"
      by (simp add: f1)
    then have "length (take ?n1 (faults w)) = ?n1"
      by simp
    with all_False [OF ok] have "take ?n1 (faults w) = replicate ?n1 False"
      by simp
    moreover from pos have "?n1 + ?n2 - 1 = ?n1 + (?n2 - 1)"
      by arith
    ultimately have "take (?n1 + ?n2) (faults w) = replicate (?n1 + ?n2 - 1) False @ [True]"
      by (simp only: split t2 replicate_add append_assoc)
    with Inl show ?thesis
      by simp
  qed
  from e1 e2 have "prefix (events w) (events w2)"
    by simp
  with f last show ?thesis
    by (simp add: accounted_def outcomes_def p c split: sum.splits)
qed

lemma accounted_await:
  assumes "accounted w p" and "\<And>x w1. p = (Inr x, w1) \<Longrightarrow> accounted w1 (k x w1)"
  shows "accounted w (await p k)"
proof (cases p)
  case (Pair r w1)
  show ?thesis
  proof (cases r)
    case (Inl e)
    with Pair assms(1) show ?thesis
      by (simp add: accounted_def)
  next
    case (Inr x)
    with Pair assms have "accounted w (Inr x, w1)" and "accounted w1 (k x w1)"
      by simp_all
    then have "accounted w (k x w1)"
      by (rule accounted_seq)
    with Pair Inr show ?thesis
      by simp
  qed
qed

lemma accounted_quiet:
  assumes "events w' = events w @ es" and "filter isStorageCall es = []"
    and "faults w' = faults w"
  shows "accounted w (Inr x, w')"
  using assms by (simp add: accounted_def outcomes_def storageCalls_def newEvents_def)

lemma accounted_storageCall:
  assumes "isStorageCall ev"
  shows "accounted w (storageCall ev w)"
  using assms
  by (cases "faults w")
    (simp_all add: storageCall_eq nextRejects_def accounted_def outcomes_def storageCalls_def
      newEvents_def)

lemma accounted_return:
  "events w' = events w \<Longrightarrow> faults w' = faults w \<Longrightarrow> accounted w (Inr x, w')"
  by (rule accounted_quiet [where es = "[]"]) simp_all

lemma usersFindOne_accounted: "accounted w (usersFindOne s w)"
  unfolding usersFindOne_def
  by (rule accounted_await [OF accounted_storageCall]) (simp_all add: accounted_return)

lemma usersInsertOne_accounted: "accounted w (usersInsertOne u w)"
  unfolding usersInsertOne_def
  by (rule accounted_await [OF accounted_storageCall]) (simp_all add: accounted_return)

lemma conversationsFindOne_accounted: "accounted w (conversationsFindOne s w)"
  unfolding conversationsFindOne_def
  by (rule accounted_await [OF accounted_storageCall]) (simp_all add: accounted_return)

lemma conversationsUpdateOne_accounted: "accounted w (conversationsUpdateOne s t w)"
  unfolding conversationsUpdateOne_def
  by (rule accounted_await [OF accounted_storageCall]) (simp_all add: accounted_return)

lemma getUserProfile_accounted: "accounted w (getUserProfile s w)"
  unfolding getUserProfile_def
proof (rule accounted_await [OF usersFindOne_accounted])
  fix found w1
  show "accounted w1 (case found of
      None \<Rightarrow> let user = \<lparr>sender = s, preferences = [], favoriteResponses = [],
                  conversationHistory = []\<rparr>
               in await (usersInsertOne user w1) (\<lambda>_ w2. (Inr user, w2))
    | Some user \<Rightarrow> (Inr user, w1))"
  proof (cases found)
    case None
    then show ?thesis
      by (simp add: Let_def)
        (rule accounted_await [OF usersInsertOne_accounted], simp add: accounted_return)
  next
    case (Some u)
    then show ?thesis
      by (simp add: accounted_return)
  qed
qed

lemma updateConversationHistory_accounted:
  "accounted w (updateConversationHistory s m r w)"
  by (simp add: updateConversationHistory_def conversationsUpdateOne_accounted)

lemma getConversationHistory_accounted: "accounted w (getConversationHistory s w)"
  unfolding getConversationHistory_def
  by (rule accounted_await [OF conversationsFindOne_accounted])
    (simp add: accounted_return split: option.splits)

lemma respond_accounted: "accounted w (respond s r w)"
  unfolding respond_def
  by (rule accounted_await [OF updateConversationHistory_accounted])
    (simp add: accounted_return)

lemma completionLog_calls: "filter isStorageCall (completionLog c) = []"
  by (cases c) (simp_all add: completionLog_def)

lemma getBotResponse_accounted: "accounted w (getBotResponse openai s i w)"
  unfolding getBotResponse_def
proof (rule accounted_await [OF getUserProfile_accounted],
    rule accounted_await [OF getConversationHistory_accounted])
  fix user :: user and w1 :: world and fetched :: "string list" and w2 :: world
  have "accounted w2 (respond s (fst (createCompletion openai p w2))
      (snd (createCompletion openai p w2)))" for p
  proof (rule accounted_seq [OF _ respond_accounted])
    show "accounted w2 (Inr (), snd (createCompletion openai p w2))"
      by (rule accounted_quiet [where es = "CompletionsCreate p # completionLog (openai p)"])
        (simp_all add: createCompletion_eq completionLog_calls)
  qed
  then show "accounted w2 (let hist = fetched @ [''Human: '' @ i] in
      if toLowerCase (unicodeLower w2) i = ''hi'' then respond s greetingReply w2
      else if includesStr (toLowerCase (unicodeLower w2) i) ''who are you''
        then respond s whoAreYouReply w2
      else if includesStr (toLowerCase (unicodeLower w2) i) ''tell me more about patrick''
        then respond s patrickReply w2
      else (case createCompletion openai (buildPrompt hist) w2 of
              (response, w3) \<Rightarrow> respond s response w3))"
    by (simp add: Let_def respond_accounted split_beta)
qed

lemma onMessage_accounted: "accounted w (onMessage openai m w)"
proof -
  let ?l = "LogInfo (''Received message from '' @ msg_from m @ '': '' @ trim (msg_body m))"
  let ?run = "await (updateConversationHistory (msg_from m) (trim (msg_body m)) Human (emit ?l w))
      (\<lambda>_ w2. await (getBotResponse openai (msg_from m) (trim (msg_body m)) w2)
         (\<lambda>botResponse w3. (Inr botResponse,
            emit (LogInfo (''Sent response to '' @ msg_from m @ '': '' @ botResponse))
              (emit (MsgReply (msg_from m) botResponse) w3))))"
  have "accounted (emit ?l w) ?run"
  proof (rule accounted_await [OF updateConversationHistory_accounted],
      rule accounted_await [OF getBotResponse_accounted])
    fix b :: string and w3 :: world
    show "accounted w3 (Inr b,
        emit (LogInfo (''Sent response to '' @ msg_from m @ '': '' @ b))
          (emit (MsgReply (msg_from m) b) w3))"
      by (rule accounted_quiet [where es = "[MsgReply (msg_from m) b,
          LogInfo (''Sent response to '' @ msg_from m @ '': '' @ b)]"]) simp_all
  qed
  moreover have "accounted w (Inr (), emit ?l w)"
    by (rule accounted_quiet [where es = "[?l]"]) simp_all
  ultimately have "accounted w ?run"
    by (rule accounted_seq [rotated])
  then show ?thesis
    unfolding onMessage_def Let_def .
qed

subsection \<open>A turn follows the turn without storage failure\<close>

lemma calm_fields [simp]:
  "usersCollection (calm w) = usersCollection w"
  "conversationsCollection (calm w) = conversationsCollection w"
  "clock (calm w) = clock w"
  "unicodeLower (calm w) = unicodeLower w"
  "events (calm w) = events w"
  "faults (calm w) = []"
  by (simp_all add: calm_def)

lemma noFaults_calm: "noFaults (calm w)"
  by (simp add: noFaults_def)

lemma follows_await:
  assumes p: "follows w p p0"
    and k: "\<And>x w1. follows w1 (k x w1) (k x (calm w1))"
  shows "follows w (await p k) (await p0 k)"
proof (cases p)
  case (Pair r w1)
  show ?thesis
  proof (cases r)
    case (Inr x)
    with Pair p have p0: "p0 = (Inr x, calm w1)" and pre: "prefix (events w) (events w1)"
      by (simp_all add: follows_def)
    from k [of w1 x] have "prefix (events w1) (events (snd (k x w1)))"
      and "prefix (events (snd (k x w1))) (events (snd (k x (calm w1))))"
      and "case fst (k x w1) of Inl e \<Rightarrow> True
           | Inr y \<Rightarrow> k x (calm w1) = (Inr y, calm (snd (k x w1)))"
      by (simp_all add: follows_def)
    with pre show ?thesis
      by (simp add: follows_def Pair Inr p0)
  next
    case (Inl e)
    obtain r0 w0 where p0: "p0 = (r0, w0)"
      by (cases p0)
    from Pair Inl p p0 have pre: "prefix (events w) (events w1)"
      and sim: "prefix (events w1) (events w0)"
      by (simp_all add: follows_def)
    have "prefix (events w1) (events (snd (await p0 k)))"
    proof (cases r0)
      case (Inl e0)
      with p0 sim show ?thesis
        by simp
    next
      case (Inr x0)
      from k [of w0 x0] have "prefix (events w0) (events (snd (k x0 w0)))"
        by (simp add: follows_def)
      with sim p0 Inr show ?thesis
        by simp
    qed
    with pre show ?thesis
      by (simp add: follows_def Pair Inl)
  qed
qed

lemma follows_storageCall: "follows w (storageCall ev w) (storageCall ev (calm w))"
  by (simp add: follows_def storageCall_eq nextRejects_def calm_def passed_def emit_def)

lemma usersFindOne_follows: "follows w (usersFindOne s w) (usersFindOne s (calm w))"
  unfolding usersFindOne_def
  by (rule follows_await [OF follows_storageCall]) (simp add: follows_def)

lemma usersInsertOne_follows: "follows w (usersInsertOne u w) (usersInsertOne u (calm w))"
  unfolding usersInsertOne_def
  by (rule follows_await [OF follows_storageCall]) (simp add: follows_def calm_def)

lemma conversationsFindOne_follows:
  "follows w (conversationsFindOne s w) (conversationsFindOne s (calm w))"
  unfolding conversationsFindOne_def
  by (rule follows_await [OF follows_storageCall]) (simp add: follows_def)

lemma conversationsUpdateOne_follows:
  "follows w (conversationsUpdateOne s t w) (conversationsUpdateOne s t (calm w))"
  unfolding conversationsUpdateOne_def
  by (rule follows_await [OF follows_storageCall]) (simp add: follows_def calm_def)

lemma follows_from:
  "prefix (events w) (events w1) \<Longrightarrow> follows w1 p p0 \<Longrightarrow> follows w p p0"
  by (auto simp add: follows_def)

lemma getUserProfile_follows: "follows w (getUserProfile s w) (getUserProfile s (calm w))"
  unfolding getUserProfile_def
proof (rule follows_await [OF usersFindOne_follows])
  fix found w1
  let ?user = "\<lparr>sender = s, preferences = [], favoriteResponses = [],
      conversationHistory = []\<rparr>"
  have "follows w1 (await (usersInsertOne ?user w1) (\<lambda>_ w2. (Inr ?user, w2)))
      (await (usersInsertOne ?user (calm w1)) (\<lambda>_ w2. (Inr ?user, w2)))"
    by (rule follows_await [OF usersInsertOne_follows]) (simp add: follows_def)
  then show "follows w1
      (case found of
         None \<Rightarrow> let user = ?user
                  in await (usersInsertOne user w1) (\<lambda>_ w2. (Inr user, w2))
       | Some user \<Rightarrow> (Inr user, w1))
      (case found of
         None \<Rightarrow> let user = ?user
                  in await (usersInsertOne user (calm w1)) (\<lambda>_ w2. (Inr user, w2))
       | Some user \<Rightarrow> (Inr user, calm w1))"
    by (cases found) (simp_all add: Let_def follows_def)
qed

lemma newDate_calm: "newDate (calm w) = newDate w"
  by (simp add: newDate_def)

lemma updateConversationHistory_follows:
  "follows w (updateConversationHistory s m r w) (updateConversationHistory s m r (calm w))"
  by (simp add: updateConversationHistory_def newDate_calm conversationsUpdateOne_follows)

lemma getConversationHistory_follows:
  "follows w (getConversationHistory s w) (getConversationHistory s (calm w))"
  unfolding getConversationHistory_def
  by (rule follows_await [OF conversationsFindOne_follows])
    (simp add: follows_def split: option.splits)

lemma respond_follows: "follows w (respond s r w) (respond s r (calm w))"
  unfolding respond_def
  by (rule follows_await [OF updateConversationHistory_follows]) (simp add: follows_def)

lemma createCompletion_calm:
  "createCompletion openai p (calm w)
     = (fst (createCompletion openai p w), calm (snd (createCompletion openai p w)))"
  by (simp add: createCompletion_eq calm_def)

lemma getBotResponse_follows:
  "follows w (getBotResponse openai s i w) (getBotResponse openai s i (calm w))"
  unfolding getBotResponse_def
proof (rule follows_await [OF getUserProfile_follows],
    rule follows_await [OF getConversationHistory_follows])
  fix user :: user and w1 :: world and fetched :: "string list" and w2 :: world
  have gateway: "follows w2
      (respond s (fst (createCompletion openai p w2)) (snd (createCompletion openai p w2)))
      (respond s (fst (createCompletion openai p w2))
         (calm (snd (createCompletion openai p w2))))" for p
    by (rule follows_from [OF _ respond_follows]) (simp add: createCompletion_eq)
  show "follows w2
      (let hist = fetched @ [''Human: '' @ i] in
       if toLowerCase (unicodeLower w2) i = ''hi'' then respond s greetingReply w2
       else if includesStr (toLowerCase (unicodeLower w2) i) ''who are you''
         then respond s whoAreYouReply w2
       else if includesStr (toLowerCase (unicodeLower w2) i) ''tell me more about patrick''
         then respond s patrickReply w2
       else (case createCompletion openai (buildPrompt hist) w2 of
               (response, w3) \<Rightarrow> respond s response w3))
      (let hist = fetched @ [''Human: '' @ i] in
       if toLowerCase (unicodeLower (calm w2)) i = ''hi'' then respond s greetingReply (calm w2)
       else if includesStr (toLowerCase (unicodeLower (calm w2)) i) ''who are you''
         then respond s whoAreYouReply (calm w2)
       else if includesStr (toLowerCase (unicodeLower (calm w2)) i)
           ''tell me more about patrick''
         then respond s patrickReply (calm w2)
       else (case createCompletion openai (buildPrompt hist) (calm w2) of
               (response, w3) \<Rightarrow> respond s response w3))"
    using gateway by (simp add: Let_def respond_follows createCompletion_calm split_beta)
qed

lemma onMessage_follows:
  "follows w (onMessage openai m w) (onMessage openai m (calm w))"
proof -
  let ?l = "LogInfo (''Received message from '' @ msg_from m @ '': '' @ trim (msg_body m))"
  let ?k = "\<lambda>(u :: unit) w2.
      await (getBotResponse openai (msg_from m) (trim (msg_body m)) w2)
         (\<lambda>botResponse w3. (Inr botResponse,
            emit (LogInfo (''Sent response to '' @ msg_from m @ '': '' @ botResponse))
              (emit (MsgReply (msg_from m) botResponse) w3)))"
  have c: "emit ev (calm v) = calm (emit ev v)" for ev v
    by (simp add: emit_def calm_def)
  have "follows (emit ?l w)
      (await (updateConversationHistory (msg_from m) (trim (msg_body m)) Human (emit ?l w)) ?k)
      (await (updateConversationHistory (msg_from m) (trim (msg_body m)) Human
         (calm (emit ?l w))) ?k)"
    by (rule follows_await [OF updateConversationHistory_follows],
        rule follows_await [OF getBotResponse_follows])
      (simp add: follows_def c)
  then have "follows w
      (await (updateConversationHistory (msg_from m) (trim (msg_body m)) Human (emit ?l w)) ?k)
      (await (updateConversationHistory (msg_from m) (trim (msg_body m)) Human
         (calm (emit ?l w))) ?k)"
    by (rule follows_from [rotated]) simp
  then show ?thesis
    unfolding onMessage_def Let_def c .
qed

lemma turnEvents_calm:
  "turnEvents openai m (calm w) = turnEvents openai m w"
  by (simp add: turnEvents_def replyTo_def promptContext_def historyOf_def humanTurn_def)

lemma onMessage_prefix:
  "prefix (newEvents w (snd (onMessage openai m w))) (turnEvents openai m w)"
proof -
  from onMessage_follows [of w openai m]
  obtain new where new: "events (snd (onMessage openai m w)) = events w @ new"
    and "prefix (events w @ new) (events (snd (onMessage openai m (calm w))))"
    by (auto simp add: follows_def prefix_def)
  moreover have "events (snd (onMessage openai m (calm w))) = events w @ turnEvents openai m w"
    using onMessage_ok(6) [OF noFaults_calm, of openai m w] by (simp add: turnEvents_calm)
  ultimately show ?thesis
    by (simp add: newEvents_def)
qed

lemma onMessage_through:
  assumes "fst (onMessage openai m w) = Inr r"
  shows "newEvents w (snd (onMessage openai m w)) = turnEvents openai m w"
proof -
  from onMessage_follows [of w openai m] assms
  have "snd (onMessage openai m (calm w)) = calm (snd (onMessage openai m w))"
    by (simp add: follows_def)
  then have "events (snd (onMessage openai m w)) = events (snd (onMessage openai m (calm w)))"
    by simp
  also have "\<dots> = events w @ turnEvents openai m w"
    using onMessage_ok(6) [OF noFaults_calm, of openai m w] by (simp add: turnEvents_calm)
  finally show ?thesis
    by (simp add: newEvents_def)
qed

lemma turn_storageCalls:
  "length (filter isStorageCall (turnEvents openai m w))
     = (case find (\<lambda>u. sender u = msg_from m) (usersCollection w) of None \<Rightarrow> 5 | Some u \<Rightarrow> 4)"
  by (simp add: turnEvents_def completionLog_calls split: option.splits)

lemma filter_prefix_length: "prefix xs ys \<Longrightarrow> length (filter P xs) \<le> length (filter P ys)"
  by (auto simp add: prefix_def)


subsection \<open>The calls of a turn that ends with an error\<close>

lemma getBotResponse_newEvents:
  "\<exists>n1 rest. newEvents w (snd (getBotResponse openai s i w)) = n1 @ rest
     \<and> (n1 = [UsersFindOne s] \<or> n1 = [UsersFindOne s, UsersInsertOne s])
     \<and> (rest = [] \<or> rest = [ConversationsFindOne s]
        \<or> (\<exists>t. rest = [ConversationsFindOne s, ConversationsUpdateOne s Bot t])
        \<or> (\<exists>p c t. rest = [ConversationsFindOne s, CompletionsCreate p] @ completionLog c
              @ [ConversationsUpdateOne s Bot t]))"
proof -
  obtain r1 w1 where g: "getUserProfile s w = (r1, w1)"
    by (cases "getUserProfile s w")
  obtain n1 where e1: "events w1 = events w @ n1"
    and n1: "n1 = [UsersFindOne s] \<or> n1 = [UsersFindOne s, UsersInsertOne s]"
    using getUserProfile_events [of s w] g by auto
  have u1: "unicodeLower w1 = unicodeLower w"
    using getUserProfile_unicode [of s w] g by simp
  let ?new = "newEvents w (snd (getBotResponse openai s i w))"
  have "\<exists>rest. ?new = n1 @ rest
     \<and> (rest = [] \<or> rest = [ConversationsFindOne s]
        \<or> (\<exists>t. rest = [ConversationsFindOne s, ConversationsUpdateOne s Bot t])
        \<or> (\<exists>p c t. rest = [ConversationsFindOne s, CompletionsCreate p] @ completionLog c
              @ [ConversationsUpdateOne s Bot t]))"
  proof (cases r1)
    case (Inl e)
    with g e1 have "?new = n1 @ []"
      by (simp add: getBotResponse_def newEvents_def)
    then show ?thesis
      by blast
  next
    case user: (Inr u)
    show ?thesis
    proof (cases "nextRejects w1")
      case True
      with g user e1 have "?new = n1 @ [ConversationsFindOne s]"
        by (simp add: getBotResponse_def getConversationHistory_eq newEvents_def)
      then show ?thesis
        by blast
    next
      case False
      let ?w2 = "passed (ConversationsFindOne s) w1"
      let ?hist = "map entry (slice (- 20) (historyOf s w1)) @ [''Human: '' @ i]"
      have run: "getBotResponse openai s i w =
          (if toLowerCase (unicodeLower w) i = ''hi'' then respond s greetingReply ?w2
           else if includesStr (toLowerCase (unicodeLower w) i) ''who are you''
             then respond s whoAreYouReply ?w2
           else if includesStr (toLowerCase (unicodeLower w) i) ''tell me more about patrick''
             then respond s patrickReply ?w2
           else respond s (fst (createCompletion openai (buildPrompt ?hist) ?w2))
                  (snd (createCompletion openai (buildPrompt ?hist) ?w2)))"
        using g user False
        by (simp add: getBotResponse_def getConversationHistory_eq u1 Let_def split_beta)
      show ?thesis
      proof (cases "noRule (unicodeLower w) i")
        case True
        then have "?new = n1 @ [ConversationsFindOne s, CompletionsCreate (buildPrompt ?hist)]
              @ completionLog (openai (buildPrompt ?hist))
              @ [ConversationsUpdateOne s Bot (completionReply (openai (buildPrompt ?hist)))]"
          by (simp add: run noRule_def store_events createCompletion_eq e1 newEvents_def)
        then show ?thesis
          by blast
      next
        case False
        then have "\<exists>t. ?new = n1 @ [ConversationsFindOne s, ConversationsUpdateOne s Bot t]"
          by (auto simp add: run noRule_def store_events e1 newEvents_def)
        then show ?thesis
          by blast
      qed
    qed
  qed
  with n1 show ?thesis
    by blast
qed

lemma completionLog_distinct:
  "distinct (completionLog c)" "ConversationsUpdateOne s r t \<notin> set (completionLog c)"
  "UsersFindOne s \<notin> set (completionLog c)" "UsersInsertOne s \<notin> set (completionLog c)"
  "ConversationsFindOne s \<notin> set (completionLog c)" "CompletionsCreate p \<notin> set (completionLog c)"
  by (cases c; simp add: completionLog_def)+

lemma getBotResponse_distinct:
  "distinct (newEvents w (snd (getBotResponse openai s i w)))"
  "ConversationsUpdateOne s Human t \<notin> set (newEvents w (snd (getBotResponse openai s i w)))"
  using getBotResponse_newEvents [of w openai s i]
  by (auto simp add: completionLog_distinct)

lemma endsInCall_internal:
  assumes "endsInCall n"
  shows "list_all isInternal n"
proof -
  from assms have "list_all isInternal (butlast n)" and "list_all isInternal [last n]"
    and "n \<noteq> []"
    by (simp_all add: endsInCall_def isInternal_def)
  then show ?thesis
    by (metis append_butlast_last_id list_all_append)
qed

lemma distinct_turn:
  assumes "list_all isInternal n" and "distinct n" and "c \<notin> set n"
    and "\<not> isInternal l" and "l \<noteq> c"
  shows "distinct (l # c # n)"
  using assms by (auto simp add: list_all_iff)

lemma onMessage_replies:
  assumes "fst (onMessage openai m w) = Inr r"
  shows "MsgReply (msg_from m) r \<in> set (newEvents w (snd (onMessage openai m w)))"
proof -
  let ?s = "msg_from m" and ?i = "trim (msg_body m)"
  let ?l = "LogInfo (''Received message from '' @ ?s @ '': '' @ ?i)"
  let ?k = "\<lambda>botResponse w3. (Inr botResponse,
      emit (LogInfo (''Sent response to '' @ ?s @ '': '' @ botResponse))
        (emit (MsgReply ?s botResponse) w3)) :: string promise"
  obtain r2 w2 where u: "updateConversationHistory ?s ?i Human (emit ?l w) = (r2, w2)"
    by (cases "updateConversationHistory ?s ?i Human (emit ?l w)")
  then have e2: "events w2 = events w @ ?l # [ConversationsUpdateOne ?s Human ?i]"
    using store_events(1) [of ?s ?i Human "emit ?l w"] by simp
  obtain r3 w3 where gb: "getBotResponse openai ?s ?i w2 = (r3, w3)"
    by (cases "getBotResponse openai ?s ?i w2")
  then obtain n where e3: "events w3 = events w2 @ n"
    using getBotResponse_events [of openai ?s ?i w2] by auto
  have run: "onMessage openai m w
      = await (r2, w2) (\<lambda>_ w2. await (getBotResponse openai ?s ?i w2) ?k)"
    unfolding onMessage_def Let_def u by (rule refl)
  from assms show ?thesis
    by (cases r2; cases r3) (simp_all add: run gb newEvents_def e2 e3)
qed

lemma onMessage_aborted:
  assumes "fst (onMessage openai m w) = Inl e"
  shows "newEvents w (snd (onMessage openai m w))
        = LogInfo (''Received message from '' @ msg_from m @ '': '' @ trim (msg_body m))
          # tl (newEvents w (snd (onMessage openai m w)))"
    and "endsInCall (tl (newEvents w (snd (onMessage openai m w))))"
    and "distinct (newEvents w (snd (onMessage openai m w)))"
proof -
  let ?s = "msg_from m" and ?i = "trim (msg_body m)"
  let ?l = "LogInfo (''Received message from '' @ ?s @ '': '' @ ?i)"
  let ?new = "newEvents w (snd (onMessage openai m w))"
  let ?k = "\<lambda>botResponse w3. (Inr botResponse,
      emit (LogInfo (''Sent response to '' @ ?s @ '': '' @ botResponse))
        (emit (MsgReply ?s botResponse) w3)) :: string promise"
  obtain r2 w2 where u: "updateConversationHistory ?s ?i Human (emit ?l w) = (r2, w2)"
    by (cases "updateConversationHistory ?s ?i Human (emit ?l w)")
  then have e2: "events w2 = events w @ ?l # [ConversationsUpdateOne ?s Human ?i]"
    using store_events(1) [of ?s ?i Human "emit ?l w"] by simp
  obtain r3 w3 where gb: "getBotResponse openai ?s ?i w2 = (r3, w3)"
    by (cases "getBotResponse openai ?s ?i w2")
  then obtain n where e3: "events w3 = events w2 @ n" and c3: "endsInCall n"
    using getBotResponse_events [of openai ?s ?i w2] by auto
  from gb e3 have n: "newEvents w2 (snd (getBotResponse openai ?s ?i w2)) = n"
    by (simp add: newEvents_def)
  have run: "onMessage openai m w
      = await (r2, w2) (\<lambda>_ w2. await (getBotResponse openai ?s ?i w2) ?k)"
    unfolding onMessage_def Let_def u by (rule refl)
  consider (first) e' where "r2 = Inl e'" | (later) e' where "r2 = Inr ()" "r3 = Inl e'"
    | (through) b where "r2 = Inr ()" "r3 = Inr b"
    by (cases r2; cases r3) auto
  then have "?new = ?l # tl ?new \<and> endsInCall (tl ?new) \<and> distinct ?new"
  proof cases
    case first
    then have "onMessage openai m w = (Inl e', w2)"
      by (simp add: run)
    then have "?new = ?l # [ConversationsUpdateOne ?s Human ?i]"
      using e2 by (simp add: newEvents_def)
    then show ?thesis
      by (simp add: endsInCall_single)
  next
    case later
    then have "onMessage openai m w = (Inl e', w3)"
      by (simp add: run gb)
    then have new: "?new = ?l # ConversationsUpdateOne ?s Human ?i # n"
      using e2 e3 by (simp add: newEvents_def)
    have "endsInCall ([ConversationsUpdateOne ?s Human ?i] @ n)"
      using c3 by (intro endsInCall_append) (simp_all add: isInternal_def)
    moreover have "distinct (?l # ConversationsUpdateOne ?s Human ?i # n)"
    proof (rule distinct_turn)
      show "list_all isInternal n"
        using c3 by (rule endsInCall_internal)
      show "distinct n"
        using getBotResponse_distinct(1) [of w2 openai ?s ?i] by (simp add: n)
      show "ConversationsUpdateOne ?s Human ?i \<notin> set n"
        using getBotResponse_distinct(2) [of ?s ?i w2 openai ?i] by (simp add: n)
    qed (simp_all add: isInternal_def)
    ultimately show ?thesis
      by (simp add: new)
  next
    case through
    then have "fst (onMessage openai m w) = Inr b"
      by (simp add: run gb)
    with assms show ?thesis
      by simp
  qed
  then show "?new = ?l # tl ?new" and "endsInCall (tl ?new)" and "distinct ?new"
    by simp_all
qed

lemma abort_account:
  assumes new: "new = l # n" and n: "endsInCall n" and l: "\<not> isReply l" "\<not> isStorageCall l"
    and outs: "outs = replicate (length (filter isStorageCall new) - 1) False @ [True]"
  shows "\<exists>pre c. new = l # pre @ [c] \<and> isStorageCall c \<and> list_all isInternal pre
      \<and> outs = map (\<lambda>call. False) (filter isStorageCall pre) @ [True]
      \<and> list_all isGatewayError (filter isLog (pre @ [c]))"
    and "\<not> list_ex isReply new"
proof -
  from n have split: "n = butlast n @ [last n]" and c: "isStorageCall (last n)"
    and pre: "list_all isInternal (butlast n)"
    by (simp_all add: endsInCall_def)
  from n have all: "list_all isInternal n"
    by (rule endsInCall_internal)
  then have "\<not> list_ex isReply n"
    unfolding list_all_iff list_ex_iff using internal_not_reply by blast
  with l(1) show "\<not> list_ex isReply new"
    by (simp add: new)
  from all have "list_all isGatewayError (filter isLog n)"
    unfolding list_all_iff using internal_log by auto
  with split have logs: "list_all isGatewayError (filter isLog (butlast n @ [last n]))"
    by simp
  have "filter isStorageCall new = filter isStorageCall (butlast n) @ [last n]"
    using l(2) c by (subst new, subst split) simp
  then have "outs = map (\<lambda>call. False) (filter isStorageCall (butlast n)) @ [True]"
    by (simp add: outs map_replicate_const)
  moreover from new split have "new = l # butlast n @ [last n]"
    by simp
  ultimately show "\<exists>pre c. new = l # pre @ [c] \<and> isStorageCall c \<and> list_all isInternal pre
      \<and> outs = map (\<lambda>call. False) (filter isStorageCall pre) @ [True]
      \<and> list_all isGatewayError (filter isLog (pre @ [c]))"
    using c pre logs by blast
qed


text \<open>
  Claim C8, as the code has it. A turn makes four storage calls, five for a sender
  without profile, unless one of them is rejected, and takes one outcome of the storage
  for each call it makes. A call of the turn is rejected exactly when one of the next four
  (five) outcomes of the storage is a rejection, and exactly then the handler ends with
  an error. The rejected call is then the last call of the turn, and every storage call
  before it succeeded: after the receipt notice come only storage calls that succeeded,
  possibly the completion request with the log entry of its failure, and then the call
  that was rejected. Nothing follows it and no call is made twice, so nothing is retried;
  no reply goes to the transport; and the only log entries after the receipt notice are
  those of a failed completion. When no storage call of the turn was rejected, the
  handler returns a reply and sends it to the transport.
\<close>

theorem storage_failure_aborts:
  "(True \<in> set (outcomes w (snd (onMessage openai m w))))
     = (True \<in> set (take (case find (\<lambda>u. sender u = msg_from m) (usersCollection w) of
                             None \<Rightarrow> 5 | Some u \<Rightarrow> 4) (faults w)))
   \<and> (fst (onMessage openai m w) = Inl StorageError)
       = (True \<in> set (outcomes w (snd (onMessage openai m w))))
   \<and> faults (snd (onMessage openai m w))
       = drop (length (storageCalls w (snd (onMessage openai m w)))) (faults w)
   \<and> (True \<in> set (outcomes w (snd (onMessage openai m w)))
      \<longrightarrow> (\<exists>pre c. newEvents w (snd (onMessage openai m w))
              = LogInfo (''Received message from '' @ msg_from m @ '': '' @ trim (msg_body m))
                # pre @ [c]
            \<and> isStorageCall c \<and> list_all isInternal pre
            \<and> outcomes w (snd (onMessage openai m w))
                = map (\<lambda>call. False) (filter isStorageCall pre) @ [True]
            \<and> list_all isGatewayError (filter isLog (pre @ [c])))
        \<and> distinct (newEvents w (snd (onMessage openai m w)))
        \<and> \<not> list_ex isReply (newEvents w (snd (onMessage openai m w))))
   \<and> (True \<notin> set (outcomes w (snd (onMessage openai m w)))
      \<longrightarrow> (\<exists>r. fst (onMessage openai m w) = Inr r
            \<and> MsgReply (msg_from m) r \<in> set (newEvents w (snd (onMessage openai m w)))))"
proof -
  let ?w' = "snd (onMessage openai m w)"
  let ?l = "LogInfo (''Received message from '' @ msg_from m @ '': '' @ trim (msg_body m))"
  let ?N = "case find (\<lambda>u. sender u = msg_from m) (usersCollection w) of
      None \<Rightarrow> 5 | Some u \<Rightarrow> (4 :: nat)"
  note acc = onMessage_accounted [of w openai m]
  have f: "faults ?w' = drop (length (storageCalls w ?w')) (faults w)"
    using acc by (simp add: accounted_def)
  have inl: "outcomes w ?w' = replicate (length (storageCalls w ?w') - 1) False @ [True]"
    if "fst (onMessage openai m w) = Inl e" for e
    using acc that by (simp add: accounted_def)
  have inr: "True \<notin> set (outcomes w ?w')" if "fst (onMessage openai m w) = Inr r" for r
    using acc that by (simp add: accounted_def)
  have iff: "(fst (onMessage openai m w) = Inl StorageError) = (True \<in> set (outcomes w ?w'))"
  proof (cases "fst (onMessage openai m w)")
    case (Inl e)
    then have "True \<in> set (outcomes w ?w')"
      using inl [OF Inl] by simp
    with Inl show ?thesis
      by (cases e) simp
  next
    case (Inr r)
    with inr [OF Inr] show ?thesis
      by simp
  qed
  have fail: "True \<in> set (outcomes w ?w')
      \<longrightarrow> (\<exists>pre c. newEvents w ?w' = ?l # pre @ [c]
            \<and> isStorageCall c \<and> list_all isInternal pre
            \<and> outcomes w ?w' = map (\<lambda>call. False) (filter isStorageCall pre) @ [True]
            \<and> list_all isGatewayError (filter isLog (pre @ [c])))
        \<and> distinct (newEvents w ?w')
        \<and> \<not> list_ex isReply (newEvents w ?w')"
  proof
    assume "True \<in> set (outcomes w ?w')"
    with iff have i: "fst (onMessage openai m w) = Inl StorageError"
      by simp
    note ab = onMessage_aborted [OF i]
    have l: "\<not> isReply ?l" "\<not> isStorageCall ?l"
      by simp_all
    note o = inl [OF i, unfolded storageCalls_def]
    have sh: "\<exists>pre c. newEvents w ?w' = ?l # pre @ [c]
            \<and> isStorageCall c \<and> list_all isInternal pre
            \<and> outcomes w ?w' = map (\<lambda>call. False) (filter isStorageCall pre) @ [True]
            \<and> list_all isGatewayError (filter isLog (pre @ [c]))"
      using ab(1) ab(2) l o by (rule abort_account(1))
    have q: "\<not> list_ex isReply (newEvents w ?w')"
      using ab(1) ab(2) l o by (rule abort_account(2))
    show "(\<exists>pre c. newEvents w ?w' = ?l # pre @ [c]
            \<and> isStorageCall c \<and> list_all isInternal pre
            \<and> outcomes w ?w' = map (\<lambda>call. False) (filter isStorageCall pre) @ [True]
            \<and> list_all isGatewayError (filter isLog (pre @ [c])))
        \<and> distinct (newEvents w ?w')
        \<and> \<not> list_ex isReply (newEvents w ?w')"
      by (rule conjI [OF sh conjI [OF ab(3) q]])
  qed
  have ok: "True \<notin> set (outcomes w ?w')
      \<longrightarrow> (\<exists>r. fst (onMessage openai m w) = Inr r
            \<and> MsgReply (msg_from m) r \<in> set (newEvents w ?w'))"
  proof
    assume none: "True \<notin> set (outcomes w ?w')"
    show "\<exists>r. fst (onMessage openai m w) = Inr r
        \<and> MsgReply (msg_from m) r \<in> set (newEvents w ?w')"
    proof (cases "fst (onMessage openai m w)")
      case (Inl e)
      with inl [OF Inl] none show ?thesis
        by simp
    next
      case (Inr r)
      then have "MsgReply (msg_from m) r \<in> set (newEvents w ?w')"
        by (rule onMessage_replies)
      with Inr show ?thesis
        by simp
    qed
  qed
  have le: "length (storageCalls w ?w') \<le> ?N"
    using filter_prefix_length [OF onMessage_prefix, of isStorageCall w openai m]
    by (simp add: storageCalls_def turn_storageCalls)
  have scripted: "(True \<in> set (outcomes w ?w')) = (True \<in> set (take ?N (faults w)))"
  proof
    assume "True \<in> set (outcomes w ?w')"
    then show "True \<in> set (take ?N (faults w))"
      using set_take_subset_set_take [OF le, of "faults w"] by (auto simp add: outcomes_def)
  next
    assume scr: "True \<in> set (take ?N (faults w))"
    show "True \<in> set (outcomes w ?w')"
    proof (rule ccontr)
      assume "True \<notin> set (outcomes w ?w')"
      with iff obtain r where r: "fst (onMessage openai m w) = Inr r"
        by (cases "fst (onMessage openai m w)") (auto intro: error.exhaust)
      then have "storageCalls w ?w' = filter isStorageCall (turnEvents openai m w)"
        by (simp add: storageCalls_def onMessage_through)
      then have "outcomes w ?w' = take ?N (faults w)"
        by (simp add: outcomes_def turn_storageCalls)
      with scr inr [OF r] show False
        by simp
    qed
  qed
  show ?thesis
    by (rule conjI [OF scripted conjI [OF iff conjI [OF f conjI [OF fail ok]]]])
qed

theorem storage_failure_aborts_witness:
  "True \<in> set (take 5 (faults failingWorld))
   \<and> find (\<lambda>u. sender u = msg_from hiyaMsg) (usersCollection failingWorld) = None
   \<and> fst (onMessage timeoutService hiyaMsg failingWorld) = Inl StorageError
   \<and> outcomes failingWorld (snd (onMessage timeoutService hiyaMsg failingWorld)) = [True]
   \<and> \<not> list_ex isReply
        (newEvents failingWorld (snd (onMessage timeoutService hiyaMsg failingWorld)))
   \<and> True \<in> set (take 5 (faults lateFailingWorld))
   \<and> find (\<lambda>u. sender u = msg_from hiyaMsg) (usersCollection lateFailingWorld) = None
   \<and> fst (onMessage timeoutService hiyaMsg lateFailingWorld) = Inl StorageError
   \<and> outcomes lateFailingWorld (snd (onMessage timeoutService hiyaMsg lateFailingWorld))
       = [False, False, False, False, True]
   \<and> \<not> list_ex isReply
        (newEvents lateFailingWorld (snd (onMessage timeoutService hiyaMsg lateFailingWorld)))
   \<and> True \<notin> set (take 5 (faults emptyWorld))
   \<and> MsgReply ''a'' fallbackReply
       \<in> set (newEvents emptyWorld (snd (onMessage timeoutService hiyaMsg emptyWorld)))"
proof -
  have new: "find (\<lambda>u. sender u = msg_from hiyaMsg) (usersCollection failingWorld) = None"
    "find (\<lambda>u. sender u = msg_from hiyaMsg) (usersCollection lateFailingWorld) = None"
    "find (\<lambda>u. sender u = msg_from hiyaMsg) (usersCollection emptyWorld) = None"
    by (simp_all add: failingWorld_def lateFailingWorld_def emptyWorld_def)
  have scripted: "True \<in> set (take 5 (faults failingWorld))"
    "True \<in> set (take 5 (faults lateFailingWorld))"
    "True \<notin> set (take 5 (faults emptyWorld))"
    by (simp_all add: failingWorld_def lateFailingWorld_def emptyWorld_def)
  have early: "outcomes failingWorld (snd (onMessage timeoutService hiyaMsg failingWorld))
      = [True]"
    by (simp add: outcomes_def storageCalls_def newEvents_def failing_run)
      (simp add: failingWorld_def emptyWorld_def)
  have late: "outcomes lateFailingWorld (snd (onMessage timeoutService hiyaMsg lateFailingWorld))
      = [False, False, False, False, True]"
    by (simp add: outcomes_def storageCalls_def late_failing_calls)
      (simp add: lateFailingWorld_def)
  from storage_failure_aborts [of failingWorld timeoutService hiyaMsg] scripted(1)
  have a: "fst (onMessage timeoutService hiyaMsg failingWorld) = Inl StorageError"
    and b: "\<not> list_ex isReply
      (newEvents failingWorld (snd (onMessage timeoutService hiyaMsg failingWorld)))"
    by (simp_all add: new)
  from storage_failure_aborts [of lateFailingWorld timeoutService hiyaMsg] scripted(2)
  have c: "fst (onMessage timeoutService hiyaMsg lateFailingWorld) = Inl StorageError"
    and d: "\<not> list_ex isReply
      (newEvents lateFailingWorld (snd (onMessage timeoutService hiyaMsg lateFailingWorld)))"
    by (simp_all add: new)
  from storage_failure_aborts [of emptyWorld timeoutService hiyaMsg] scripted(3) hiya_run
  have e: "MsgReply ''a'' fallbackReply
      \<in> set (newEvents emptyWorld (snd (onMessage timeoutService hiyaMsg emptyWorld)))"
    by (simp add: new) (simp add: hiyaMsg_def)
  show ?thesis
    by (rule conjI [OF scripted(1) conjI [OF new(1) conjI [OF a conjI [OF early conjI [OF b
          conjI [OF scripted(2) conjI [OF new(2) conjI [OF c conjI [OF late conjI [OF d
          conjI [OF scripted(3) e]]]]]]]]]]])
qed

text \<open>
  Claim C8, as stated, fails where it says that the failure is logged. When the first
  storage call of a turn rejects, the handler ends with the error, and the calls of the
  turn are the receipt notice, logged before the storage was touched, and the rejected
  call: no log entry is written for the failure.
\<close>

theorem storage_failure_not_logged:
  "fst (onMessage timeoutService hiyaMsg failingWorld) = Inl StorageError
   \<and> newEvents failingWorld (snd (onMessage timeoutService hiyaMsg failingWorld))
       = [LogInfo ''Received message from a: hiya'', ConversationsUpdateOne ''a'' Human ''hiya'']
   \<and> filter isLog (newEvents failingWorld (snd (onMessage timeoutService hiyaMsg failingWorld)))
       = [LogInfo ''Received message from a: hiya'']"
  by (simp add: failing_run newEvents_def) (simp add: failingWorld_def emptyWorld_def)

end
